theory Spec2Isabelle
  imports Complex_Main "HOL-Library.Word" "HOL-Library.Monad_Syntax"
begin

section \<open>GStreamer buffers on an explicit store\<close>

text \<open>
  The element \<^verbatim>\<open>deepspeech\<close> of \<^verbatim>\<open>src/gstdeepspeech.cc\<close>. The file holds two revisions of
  the element, one after the other; the model follows the later one (from line 441 on),
  which has the properties \<^verbatim>\<open>silence-threshold\<close> and \<^verbatim>\<open>silence-length\<close>, and line numbers
  refer to it.

  The element shares one incoming \<^verbatim>\<open>GstBuffer\<close> between its accumulator and the
  downstream peer, so buffers live in a store and are named by their address. A buffer
  carries its reference count, the bytes of its memory blocks (in order), and the two
  metadata fields the element reads, \<^verbatim>\<open>GST_BUFFER_TIMESTAMP\<close> (the presentation
  timestamp) and \<^verbatim>\<open>GST_BUFFER_DURATION\<close>. An address is an index into the store; a freed
  buffer leaves \<open>None\<close> behind, and every operation on a dead address returns \<open>None\<close>.
  The buffer functions are those of the GStreamer 1.x core library (\<^verbatim>\<open>gstbuffer.c\<close>),
  modelled by what they do to reference counts, bytes and the two metadata fields.
\<close>

type_synonym addr = nat

record GstBuffer =
  refcount :: nat
  mem :: "8 word list"
  pts :: "64 word"
  duration :: "64 word"

definition GST_CLOCK_TIME_NONE :: "64 word" where
  "GST_CLOCK_TIME_NONE = - 1"

datatype GstEventType = GST_EVENT_CAPS | GST_EVENT_EOS | GST_EVENT_OTHER

record GstMessage =
  timestamp :: "64 word"
  stream_time :: "64 word"
  running_time :: "64 word"
  msg_duration :: "64 word"
  msg_text :: string

text \<open>
  What the element does to its surroundings, in the order it does it: a task handed to
  the thread pool, the pool freed (\<^verbatim>\<open>g_thread_pool_free (pool, FALSE, TRUE)\<close>: every
  queued task is run, and the call returns when they have finished), a buffer pushed on
  the source pad, an event passed to the default handler (which forwards it downstream),
  a message posted on the bus.
\<close>

datatype effect =
    PoolPush addr
  | PoolFree
  | PadPush addr
  | EventDefault GstEventType
  | PostMessage GstMessage

text \<open>
  Modelled from the spec: the instance structure \<^verbatim>\<open>GstDeepSpeech\<close> is declared in
  \<^verbatim>\<open>gstdeepspeech.h\<close>, which is not among the sources. The fields are the ones
  \<^verbatim>\<open>gstdeepspeech.cc\<close> reads and writes; the counter and the limit are unsigned 32-bit
  (\<open>quiet_run_length: u32\<close>, \<open>silence_run_limit: u32\<close>) and the threshold is a
  floating-point number, taken here as the real number it denotes. The limit comes from
  a property with the range 0 to \<^verbatim>\<open>G_MAXINT\<close>; below \<open>2^31\<close> signed and unsigned 32-bit
  comparison and increment agree.
\<close>

record GstDeepSpeech =
  silence_threshold :: real
  silence_length :: "32 word"
  quiet_bufs :: "32 word"
  buf :: addr

record world = GstDeepSpeech +
  heap :: "GstBuffer option list"
  trace :: "effect list"

definition deref :: "world \<Rightarrow> addr \<Rightarrow> GstBuffer option" where
  "deref w a = (if a < length (heap w) then heap w ! a else None)"

definition store :: "world \<Rightarrow> addr \<Rightarrow> GstBuffer option \<Rightarrow> world" where
  "store w a v = w\<lparr>heap := (heap w)[a := v]\<rparr>"

definition alloc :: "world \<Rightarrow> GstBuffer \<Rightarrow> addr \<times> world" where
  "alloc w B = (length (heap w), w\<lparr>heap := heap w @ [Some B]\<rparr>)"

text \<open>
  \<^verbatim>\<open>gst_buffer_new\<close>: a buffer without memory, one reference, timestamp and duration
  \<^verbatim>\<open>GST_CLOCK_TIME_NONE\<close>.
\<close>

definition gst_buffer_new :: "world \<Rightarrow> addr \<times> world" where
  "gst_buffer_new w =
     alloc w \<lparr>refcount = 1, mem = [], pts = GST_CLOCK_TIME_NONE, duration = GST_CLOCK_TIME_NONE\<rparr>"

definition gst_buffer_get_size :: "world \<Rightarrow> addr \<Rightarrow> nat option" where
  "gst_buffer_get_size w a = map_option (\<lambda>B. length (mem B)) (deref w a)"

definition gst_buffer_ref :: "world \<Rightarrow> addr \<Rightarrow> world option" where
  "gst_buffer_ref w a =
     (case deref w a of
        None \<Rightarrow> None
      | Some B \<Rightarrow> Some (store w a (Some (B\<lparr>refcount := Suc (refcount B)\<rparr>))))"

definition gst_buffer_unref :: "world \<Rightarrow> addr \<Rightarrow> world option" where
  "gst_buffer_unref w a =
     (case deref w a of
        None \<Rightarrow> None
      | Some B \<Rightarrow>
          Some (if refcount B \<le> 1 then store w a None
                else store w a (Some (B\<lparr>refcount := refcount B - 1\<rparr>))))"

text \<open>
  \<^verbatim>\<open>gst_buffer_copy\<close> and \<^verbatim>\<open>gst_buffer_copy_deep\<close> give a new buffer with one reference,
  the metadata of the source and its bytes (shared memory blocks for the first, copied
  ones for the second: the same bytes, and nothing here writes into a memory block).
\<close>

definition gst_buffer_copy :: "world \<Rightarrow> addr \<Rightarrow> (addr \<times> world) option" where
  "gst_buffer_copy w a =
     (case deref w a of
        None \<Rightarrow> None
      | Some B \<Rightarrow> Some (alloc w (B\<lparr>refcount := 1\<rparr>)))"

definition gst_buffer_copy_deep :: "world \<Rightarrow> addr \<Rightarrow> (addr \<times> world) option" where
  "gst_buffer_copy_deep w a =
     (case deref w a of
        None \<Rightarrow> None
      | Some B \<Rightarrow> Some (alloc w (B\<lparr>refcount := 1\<rparr>)))"

text \<open>
  \<^verbatim>\<open>gst_buffer_make_writable\<close>: a buffer with a single reference is writable and is
  returned as it is; otherwise the caller's reference is exchanged for a copy.
\<close>

definition gst_buffer_make_writable :: "world \<Rightarrow> addr \<Rightarrow> (addr \<times> world) option" where
  "gst_buffer_make_writable w a =
     (case deref w a of
        None \<Rightarrow> None
      | Some B \<Rightarrow>
          if refcount B = 1 then Some (a, w)
          else do {
            (c, w1) \<leftarrow> gst_buffer_copy w a;
            w2 \<leftarrow> gst_buffer_unref w1 a;
            Some (c, w2)
          })"

text \<open>
  \<^verbatim>\<open>gst_buffer_append (buf1, buf2)\<close> takes both references, makes both buffers writable,
  moves the memory blocks of the second to the end of the first, drops the second and
  returns the first. The metadata of the first buffer stays as it was: timestamps are
  not taken from the second.
\<close>

definition gst_buffer_append :: "world \<Rightarrow> addr \<Rightarrow> addr \<Rightarrow> (addr \<times> world) option" where
  "gst_buffer_append w buf1 buf2 = do {
     (b1, w1) \<leftarrow> gst_buffer_make_writable w buf1;
     (b2, w2) \<leftarrow> gst_buffer_make_writable w1 buf2;
     B1 \<leftarrow> deref w2 b1;
     B2 \<leftarrow> deref w2 b2;
     let w3 = store (store w2 b1 (Some (B1\<lparr>mem := mem B1 @ mem B2\<rparr>))) b2 (Some (B2\<lparr>mem := []\<rparr>));
     w4 \<leftarrow> gst_buffer_unref w3 b2;
     Some (b1, w4)
   }"

definition g_thread_pool_push :: "world \<Rightarrow> addr \<Rightarrow> world" where
  "g_thread_pool_push w a = w\<lparr>trace := trace w @ [PoolPush a]\<rparr>"

definition g_thread_pool_free :: "world \<Rightarrow> world" where
  "g_thread_pool_free w = w\<lparr>trace := trace w @ [PoolFree]\<rparr>"

definition gst_pad_push :: "world \<Rightarrow> addr \<Rightarrow> world" where
  "gst_pad_push w a = w\<lparr>trace := trace w @ [PadPush a]\<rparr>"

definition gst_pad_event_default :: "world \<Rightarrow> GstEventType \<Rightarrow> world" where
  "gst_pad_event_default w ev = w\<lparr>trace := trace w @ [EventDefault ev]\<rparr>"

definition gst_element_post_message :: "world \<Rightarrow> GstMessage \<Rightarrow> world" where
  "gst_element_post_message w m = w\<lparr>trace := trace w @ [PostMessage m]\<rparr>"

section \<open>The chain function\<close>

text \<open>
  The mapped bytes read as an array of \<^verbatim>\<open>gint16\<close> (the caps fix S16LE, and the host is
  little-endian): \<^verbatim>\<open>info.size / 2\<close> samples, a trailing odd byte is not read.
\<close>

fun gint16_array :: "8 word list \<Rightarrow> 16 word list" where
  "gint16_array (lo # hi # bs) = word_cat hi lo # gint16_array bs"
| "gint16_array bs = []"

text \<open>
  The loop computes in \<^verbatim>\<open>gdouble\<close>, IEEE binary64 with 53 significant bits. Every value
  the loop holds is a non-negative integer (a square of a sample, a sum of such squares
  after rounding, or the largest square so far), and a \<^verbatim>\<open>gdouble\<close> is modelled by the
  integer it holds. The product of two samples is at most \<open>2^30\<close> and exact; a sum that
  needs more than 53 bits is rounded to the nearest representable value, a tie to the one
  with an even significand. \<open>double_ulp x\<close> is the distance between neighbouring doubles
  at the magnitude of \<open>x\<close>.
\<close>

function double_ulp :: "int \<Rightarrow> int" where
  "double_ulp x = (if x < 2 ^ 53 then 1 else 2 * double_ulp (x div 2))"
  by pat_completeness auto
termination
  by (relation "measure nat") auto

declare double_ulp.simps [simp del]

definition double_round :: "int \<Rightarrow> int" where
  "double_round x =
     (let k = double_ulp x; q = x div k; r = x mod k
      in if 2 * r < k then q * k
         else if k < 2 * r then (q + 1) * k
         else if even q then q * k else (q + 1) * k)"

definition double_add :: "int \<Rightarrow> int \<Rightarrow> int" where
  "double_add a b = double_round (a + b)"

text \<open>The loop over the samples, with its two running values \<open>(squaresum, peaksquare)\<close>.\<close>

primrec energy_loop :: "16 word list \<Rightarrow> int \<times> int \<Rightarrow> int \<times> int" where
  "energy_loop [] acc = acc"
| "energy_loop (x # xs) acc =
     (let squaresum = fst acc;
          peaksquare = snd acc;
          square = sint x * sint x;
          peaksquare = (if square > peaksquare then square else peaksquare);
          squaresum = double_add squaresum square
      in energy_loop xs (squaresum, peaksquare))"

text \<open>
  The normaliser is a power of two, so the two divisions are exact in binary64, and the
  results are the real numbers the doubles \<^verbatim>\<open>ncs\<close> and \<^verbatim>\<open>nps\<close> denote.
\<close>

definition normalizer :: real where
  "normalizer = real_of_int (2 ^ 30)"

definition energy_metrics :: "8 word list \<Rightarrow> real \<times> real" where
  "energy_metrics bytes =
     (let (squaresum, peaksquare) = energy_loop (gint16_array bytes) (0, 0);
          ncs = real_of_int squaresum / normalizer;
          nps = real_of_int peaksquare / normalizer
      in (ncs, nps))"



text \<open>The short-circuit operators of C, the right operand being a call that may fail.\<close>

definition c_or :: "bool \<Rightarrow> bool option \<Rightarrow> bool option" where
  "c_or p q = (if p then Some True else q)"

definition c_and :: "bool \<Rightarrow> bool option \<Rightarrow> bool option" where
  "c_and p q = (if p then q else Some False)"

definition nonempty :: "world \<Rightarrow> addr \<Rightarrow> bool option" where
  "nonempty w a = map_option (\<lambda>n. n > 0) (gst_buffer_get_size w a)"

text \<open>Lines 787 to 790: the buffer joins the accumulator.\<close>

definition chain_append :: "world \<Rightarrow> addr \<Rightarrow> real \<Rightarrow> world option" where
  "chain_append w b ncs = do {
     c \<leftarrow> c_or (ncs > silence_threshold w) (nonempty w (buf w));
     if c then do {
       w1 \<leftarrow> gst_buffer_ref w b;
       (a, w2) \<leftarrow> gst_buffer_append w1 (buf w1) b;
       Some (w2\<lparr>buf := a\<rparr>)
     } else Some w
   }"

text \<open>Lines 792 to 796: the run of quiet buffers.\<close>

definition chain_quiet :: "world \<Rightarrow> real \<Rightarrow> world option" where
  "chain_quiet w ncs = do {
     c \<leftarrow> c_and (ncs < silence_threshold w) (nonempty w (buf w));
     Some (if c then w\<lparr>quiet_bufs := quiet_bufs w + 1\<rparr> else w\<lparr>quiet_bufs := 0\<rparr>)
   }"

text \<open>Lines 798 to 802: the flush.\<close>

definition chain_flush :: "world \<Rightarrow> world option" where
  "chain_flush w = do {
     c \<leftarrow> c_and (quiet_bufs w > silence_length w) (nonempty w (buf w));
     if c then do {
       (d, w1) \<leftarrow> gst_buffer_copy_deep w (buf w);
       let w2 = g_thread_pool_push w1 d;
       let (n, w3) = gst_buffer_new w2;
       Some (w3\<lparr>buf := n, quiet_bufs := 0\<rparr>)
     } else Some w
   }"

definition gst_deepspeech_chain :: "world \<Rightarrow> addr \<Rightarrow> world option" where
  "gst_deepspeech_chain w b = do {
     info \<leftarrow> deref w b;
     let (ncs, nps) = energy_metrics (mem info);
     w1 \<leftarrow> chain_append w b ncs;
     w2 \<leftarrow> chain_quiet w1 ncs;
     w3 \<leftarrow> chain_flush w2;
     Some (gst_pad_push w3 b)
   }"

section \<open>The worker and the sink events\<close>

text \<open>
  The inference engine is an external capability: \<^verbatim>\<open>getInputVector\<close> turns the mapped
  bytes (with the size and the sample rate it is given) into features and a frame count,
  \<^verbatim>\<open>infer\<close> turns these into a C string, read here as the characters before its
  terminator. The size is passed as \<^verbatim>\<open>(unsigned int) info.size\<close>, a 32-bit
  word. The stream segment of the element is external too; only its two time
  conversions are used.
\<close>

record Model =
  getInputVector :: "8 word list \<Rightarrow> 32 word \<Rightarrow> int \<Rightarrow> real list \<times> int"
  infer :: "real list \<Rightarrow> int \<Rightarrow> string"

record GstSegment =
  gst_segment_to_running_time :: "64 word \<Rightarrow> 64 word"
  gst_segment_to_stream_time :: "64 word \<Rightarrow> 64 word"

definition strlen :: "string \<Rightarrow> nat" where
  "strlen s = length s"

definition gst_deepspeech_message_new :: "GstSegment \<Rightarrow> GstBuffer \<Rightarrow> string \<Rightarrow> GstMessage" where
  "gst_deepspeech_message_new segment B txt =
     (let running_time = gst_segment_to_running_time segment (pts B);
          stream_time = gst_segment_to_stream_time segment (pts B)
      in \<lparr>timestamp = pts B, stream_time = stream_time, running_time = running_time,
          msg_duration = duration B, msg_text = txt\<rparr>)"

text \<open>
  \<^verbatim>\<open>run_model_async\<close>, the function of the thread pool, called once for each pushed
  buffer. The mutex around the two engine calls orders the workers among each other and
  does not change what one worker computes.
\<close>

definition run_model_async :: "Model \<Rightarrow> GstSegment \<Rightarrow> world \<Rightarrow> addr \<Rightarrow> world option" where
  "run_model_async model segment w a = do {
     info \<leftarrow> deref w a;
     let (mfcc, n_frames) =
           getInputVector model (mem info) (word_of_nat (length (mem info))) 16000;
     let result = infer model mfcc n_frames;
     let w1 = (if strlen result > 0
               then gst_element_post_message w (gst_deepspeech_message_new segment info result)
               else w);
     gst_buffer_unref w1 a
   }"

definition gst_deepspeech_sink_event :: "world \<Rightarrow> GstEventType \<Rightarrow> world option" where
  "gst_deepspeech_sink_event w event =
     (case event of
        GST_EVENT_CAPS \<Rightarrow> Some (gst_pad_event_default w event)
      | GST_EVENT_EOS \<Rightarrow> do {
          c \<leftarrow> nonempty w (buf w);
          w1 \<leftarrow> (if c then do {
                    (d, w') \<leftarrow> gst_buffer_copy_deep w (buf w);
                    Some (g_thread_pool_push w' d)
                  } else Some w);
          let w2 = g_thread_pool_free w1;
          Some (gst_pad_event_default w2 event)
        }
      | GST_EVENT_OTHER \<Rightarrow> Some (gst_pad_event_default w event))"

section \<open>Initial state and the stream of incoming buffers\<close>

text \<open>The binary64 value nearest to 0.1.\<close>

definition DEFAULT_SILENCE_THRESHOLD :: real where
  "DEFAULT_SILENCE_THRESHOLD = 3602879701896397 / 2 ^ 55"

definition DEFAULT_SILENCE_LENGTH :: "32 word" where
  "DEFAULT_SILENCE_LENGTH = 5"

definition G_MAXINT :: "32 word" where
  "G_MAXINT = 0x7FFFFFFF"

text \<open>\<^verbatim>\<open>gst_deepspeech_init\<close>, on a store without buffers.\<close>

definition gst_deepspeech_init :: world where
  "gst_deepspeech_init =
     (let w = \<lparr>silence_threshold = DEFAULT_SILENCE_THRESHOLD,
               silence_length = DEFAULT_SILENCE_LENGTH,
               quiet_bufs = 0, buf = 0, heap = [], trace = []\<rparr>;
          (a, w1) = gst_buffer_new w
      in w1\<lparr>buf := a\<rparr>)"

text \<open>
  \<^verbatim>\<open>gst_deepspeech_set_property\<close> for the two properties of the silence detector; the
  parameter specifications admit a threshold from 0 to 1 and a length from 0 to
  \<^verbatim>\<open>G_MAXINT\<close>, and GObject does not call the setter with a value outside them.
\<close>

definition set_silence_threshold :: "world \<Rightarrow> real \<Rightarrow> world" where
  "set_silence_threshold w v = w\<lparr>silence_threshold := v\<rparr>"

definition set_silence_length :: "world \<Rightarrow> 32 word \<Rightarrow> world" where
  "set_silence_length w v = w\<lparr>silence_length := v\<rparr>"

text \<open>
  The upstream peer owns a buffer with one reference and calls the chain function with
  it; a stream is a sequence of such calls.
\<close>

definition upstream_push :: "world \<Rightarrow> GstBuffer \<Rightarrow> world option" where
  "upstream_push w B = (let (b, w1) = alloc w (B\<lparr>refcount := 1\<rparr>) in gst_deepspeech_chain w1 b)"

fun stream :: "world \<Rightarrow> GstBuffer list \<Rightarrow> world option" where
  "stream w [] = Some w"
| "stream w (B # Bs) = upstream_push w B \<bind> (\<lambda>w'. stream w' Bs)"

text \<open>The accumulator is a live buffer that the element alone refers to.\<close>

definition wf_world :: "world \<Rightarrow> bool" where
  "wf_world w = (case deref w (buf w) of None \<Rightarrow> False | Some A \<Rightarrow> refcount A = 1)"

text \<open>Reading a trace: the tasks given to the pool, and the buffers sent downstream.\<close>

fun pool_pushes :: "effect list \<Rightarrow> addr list" where
  "pool_pushes [] = []"
| "pool_pushes (PoolPush a # es) = a # pool_pushes es"
| "pool_pushes (e # es) = pool_pushes es"

fun pad_pushes :: "effect list \<Rightarrow> addr list" where
  "pad_pushes [] = []"
| "pad_pushes (PadPush a # es) = a # pad_pushes es"
| "pad_pushes (e # es) = pad_pushes es"

fun messages :: "effect list \<Rightarrow> GstMessage list" where
  "messages [] = []"
| "messages (PostMessage m # es) = m # messages es"
| "messages (e # es) = messages es"

definition ncs_of :: "GstBuffer \<Rightarrow> real" where
  "ncs_of B = fst (energy_metrics (mem B))"

section \<open>One call of the chain function, summarised\<close>

text \<open>
  With the accumulator \<open>A\<close> and the incoming buffer \<open>B\<close> at hand, the three decisions of
  the chain function in turn: the bytes of the accumulator after lines 787 to 790, the
  counter after lines 792 to 796, and whether lines 798 to 802 flush.
\<close>

definition square_of :: "16 word \<Rightarrow> int" where
  "square_of x = sint x * sint x"

definition new_buffer :: GstBuffer where
  "new_buffer = \<lparr>refcount = 1, mem = [], pts = GST_CLOCK_TIME_NONE, duration = GST_CLOCK_TIME_NONE\<rparr>"

definition appending :: "world \<Rightarrow> GstBuffer \<Rightarrow> GstBuffer \<Rightarrow> bool" where
  "appending w A B = (ncs_of B > silence_threshold w \<or> mem A \<noteq> [])"

definition seg_bytes :: "world \<Rightarrow> GstBuffer \<Rightarrow> GstBuffer \<Rightarrow> 8 word list" where
  "seg_bytes w A B = (if appending w A B then mem A @ mem B else mem A)"

definition quiet_next :: "world \<Rightarrow> GstBuffer \<Rightarrow> GstBuffer \<Rightarrow> 32 word" where
  "quiet_next w A B =
     (if ncs_of B < silence_threshold w \<and> seg_bytes w A B \<noteq> [] then quiet_bufs w + 1 else 0)"

definition flushing :: "world \<Rightarrow> GstBuffer \<Rightarrow> GstBuffer \<Rightarrow> bool" where
  "flushing w A B = (quiet_next w A B > silence_length w \<and> seg_bytes w A B \<noteq> [])"

definition heap_appended :: "world \<Rightarrow> GstBuffer \<Rightarrow> GstBuffer \<Rightarrow> GstBuffer option list" where
  "heap_appended w A B =
     (if appending w A B
      then (heap w)[buf w := Some (A\<lparr>mem := mem A @ mem B\<rparr>)] @ [None]
      else heap w)"

definition chain_result :: "world \<Rightarrow> addr \<Rightarrow> GstBuffer \<Rightarrow> GstBuffer \<Rightarrow> world" where
  "chain_result w b A B =
     (if flushing w A B
      then w\<lparr>heap := heap_appended w A B @
                      [Some (A\<lparr>mem := seg_bytes w A B\<rparr>), Some new_buffer],
             trace := trace w @ [PoolPush (length (heap_appended w A B)), PadPush b],
             buf := Suc (length (heap_appended w A B)),
             quiet_bufs := 0\<rparr>
      else w\<lparr>heap := heap_appended w A B,
             trace := trace w @ [PadPush b],
             quiet_bufs := quiet_next w A B\<rparr>)"

text \<open>The same for a buffer that arrives from upstream.\<close>

definition arrived :: "world \<Rightarrow> GstBuffer \<Rightarrow> world" where
  "arrived w B = snd (alloc w (B\<lparr>refcount := 1\<rparr>))"

definition pushed :: "world \<Rightarrow> GstBuffer \<Rightarrow> GstBuffer \<Rightarrow> world" where
  "pushed w A B = chain_result (arrived w B) (length (heap w)) A (B\<lparr>refcount := 1\<rparr>)"

text \<open>What one worker makes of a pushed buffer: the text the engine returns for it.\<close>

definition recognised :: "Model \<Rightarrow> GstBuffer \<Rightarrow> string" where
  "recognised model B =
     (let (mfcc, n_frames) = getInputVector model (mem B) (word_of_nat (length (mem B))) 16000
      in infer model mfcc n_frames)"

text \<open>
  The thread pool calls \<^verbatim>\<open>run_model_async\<close> once for every task it was given; here one
  after the other, in the order of the pushes.
\<close>

fun run_tasks :: "Model \<Rightarrow> GstSegment \<Rightarrow> world \<Rightarrow> addr list \<Rightarrow> world option" where
  "run_tasks model segment w [] = Some w"
| "run_tasks model segment w (a # as) =
     run_model_async model segment w a \<bind> (\<lambda>w'. run_tasks model segment w' as)"

definition drain_pool :: "Model \<Rightarrow> GstSegment \<Rightarrow> world \<Rightarrow> world option" where
  "drain_pool model segment w = run_tasks model segment w (pool_pushes (trace w))"

text \<open>The buffer the chain function is called with is live and is not the accumulator.\<close>

definition incoming :: "world \<Rightarrow> addr \<Rightarrow> bool" where
  "incoming w b = (case deref w b of None \<Rightarrow> False | Some B \<Rightarrow> 0 < refcount B \<and> b \<noteq> buf w)"

text \<open>The invariant of the quiet counter.\<close>

definition quiet_inv :: "world \<Rightarrow> bool" where
  "quiet_inv w =
     (quiet_bufs w \<le> silence_length w \<and> (quiet_bufs w = 0 \<or> nonempty w (buf w) = Some True))"

section \<open>Concrete streams\<close>

text \<open>
  Three buffers of one sample each, 20 ms long: a loud one (sample 32767), a silent one
  (sample 0), and one whose normalised sum of squares is exactly one quarter (sample
  16384). An engine that answers \<open>a\<close> to everything, and a segment whose conversions
  leave a time as it is.
\<close>

definition ex_loud :: GstBuffer where
  "ex_loud = \<lparr>refcount = 1, mem = [0xff, 0x7f], pts = 0, duration = 20000000\<rparr>"

definition ex_soft :: GstBuffer where
  "ex_soft = \<lparr>refcount = 1, mem = [0x00, 0x00], pts = 20000000, duration = 20000000\<rparr>"

definition ex_soft2 :: GstBuffer where
  "ex_soft2 = \<lparr>refcount = 1, mem = [0x00, 0x00], pts = 40000000, duration = 20000000\<rparr>"

definition ex_edge :: GstBuffer where
  "ex_edge = \<lparr>refcount = 1, mem = [0x00, 0x40], pts = 20000000, duration = 20000000\<rparr>"


definition ex_model :: Model where
  "ex_model = \<lparr>getInputVector = (\<lambda>bytes size rate. ([], 0)), infer = (\<lambda>mfcc n_frames. ''a'')\<rparr>"

definition ex_segment :: GstSegment where
  "ex_segment = \<lparr>gst_segment_to_running_time = (\<lambda>t. t), gst_segment_to_stream_time = (\<lambda>t. t)\<rparr>"

text \<open>The element after \<^verbatim>\<open>silence-threshold=0.25 silence-length=n\<close>.\<close>

definition ex_world :: "32 word \<Rightarrow> world" where
  "ex_world n = set_silence_length (set_silence_threshold gst_deepspeech_init (1 / 4)) n"

text \<open>
  An element with threshold 0.25 and limit 5 that has accumulated the loud buffer, and a
  buffer \<open>B\<close> from upstream at address 1.
\<close>

definition ex_started :: "GstBuffer \<Rightarrow> world" where
  "ex_started B =
     \<lparr>silence_threshold = 1 / 4, silence_length = 5, quiet_bufs = 0, buf = 0,
      heap = [Some \<lparr>refcount = 1, mem = [0xff, 0x7f], pts = GST_CLOCK_TIME_NONE,
                    duration = GST_CLOCK_TIME_NONE\<rparr>,
              Some B],
      trace = []\<rparr>"

section \<open>The energy loop\<close>

lemma double_ulp_small: "x < 2 ^ 53 \<Longrightarrow> double_ulp x = 1"
  by (simp add: double_ulp.simps)

lemma double_round_small: "x < 2 ^ 53 \<Longrightarrow> double_round x = x"
  by (simp add: double_round_def double_ulp_small)




lemma square_of_nonneg: "0 \<le> square_of x"
  by (simp add: square_of_def)

lemma energy_loop_Cons:
  "energy_loop (x # xs) (s, p) =
     energy_loop xs (double_add s (square_of x), if p < square_of x then square_of x else p)"
  by (simp add: square_of_def Let_def)

























lemma double_ulp_pos: "0 < double_ulp x"
  by (induction x rule: double_ulp.induct) (simp add: double_ulp.simps)

lemma double_round_nonneg:
  assumes "0 \<le> x"
  shows "0 \<le> double_round x"
proof -
  have k: "0 < double_ulp x" by (rule double_ulp_pos)
  then have q: "0 \<le> x div double_ulp x" using assms by (simp add: pos_imp_zdiv_nonneg_iff)
  then have "0 \<le> x div double_ulp x * double_ulp x" "0 \<le> (x div double_ulp x + 1) * double_ulp x"
    using k by simp_all
  then show ?thesis by (simp add: double_round_def Let_def)
qed

lemma energy_loop_nonneg: "0 \<le> s \<Longrightarrow> 0 \<le> fst (energy_loop xs (s, p))"
proof (induction xs arbitrary: s p)
  case Nil
  then show ?case by simp
next
  case (Cons x xs)
  have "0 \<le> double_add s (square_of x)"
    unfolding double_add_def using Cons.prems square_of_nonneg [of x]
    by (intro double_round_nonneg) simp
  then show ?case unfolding energy_loop_Cons by (rule Cons.IH)
qed

section \<open>The store and one call of the chain function\<close>

lemma deref_SomeD: "deref w a = Some B \<Longrightarrow> a < length (heap w) \<and> heap w ! a = Some B"
  by (simp add: deref_def split: if_splits)

lemma deref_update [simp]:
  "deref (w\<lparr>quiet_bufs := q\<rparr>) = deref w"
  "deref (w\<lparr>trace := t\<rparr>) = deref w"
  "deref (w\<lparr>buf := a\<rparr>) = deref w"
  "deref (w\<lparr>silence_threshold := r\<rparr>) = deref w"
  "deref (w\<lparr>silence_length := l\<rparr>) = deref w"
  by (simp_all add: deref_def fun_eq_iff)

lemma list_update_nth_same: "xs ! i = v \<Longrightarrow> xs[i := v] = xs"
  by (metis list_update_id)

lemma list_update_other_same:
  "xs ! b = v \<Longrightarrow> b \<noteq> a \<Longrightarrow> xs[a := y, b := v] = xs[a := y]"
  by (metis list_update_id nth_list_update_neq)

lemma append_spec:
  assumes "deref w (buf w) = Some A" "refcount A = 1" "deref w b = Some B" "b \<noteq> buf w"
    "refcount B > 0"
  shows "chain_append w b (ncs_of B) = Some (w\<lparr>heap := heap_appended w A B\<rparr>)"
proof -
  from assms have a: "buf w < length (heap w)" "heap w ! buf w = Some A"
    and b: "b < length (heap w)" "heap w ! b = Some B"
    by (auto dest: deref_SomeD)
  show ?thesis
    using a b assms(2,4,5)
    by (simp add: chain_append_def c_or_def nonempty_def gst_buffer_get_size_def gst_buffer_ref_def
        gst_buffer_append_def gst_buffer_make_writable_def gst_buffer_copy_def gst_buffer_unref_def
        deref_def store_def alloc_def nth_append nth_list_update list_update_append
        list_update_other_same list_update_nth_same heap_appended_def appending_def)
qed

lemma deref_appended:
  assumes "deref w (buf w) = Some A"
  shows "deref (w\<lparr>heap := heap_appended w A B\<rparr>) (buf w) = Some (A\<lparr>mem := seg_bytes w A B\<rparr>)"
  using deref_SomeD [OF assms]
  by (simp add: deref_def heap_appended_def seg_bytes_def nth_append)

lemma quiet_spec:
  assumes "deref w (buf w) = Some A"
  shows "chain_quiet w ncs =
     Some (w\<lparr>quiet_bufs := (if ncs < silence_threshold w \<and> mem A \<noteq> [] then quiet_bufs w + 1 else 0)\<rparr>)"
  using assms
  by (simp add: chain_quiet_def c_and_def nonempty_def gst_buffer_get_size_def)

lemma flush_spec:
  assumes "deref w (buf w) = Some A"
  shows "chain_flush w =
     Some (if quiet_bufs w > silence_length w \<and> mem A \<noteq> []
           then w\<lparr>heap := heap w @ [Some (A\<lparr>refcount := 1\<rparr>), Some new_buffer],
                  trace := trace w @ [PoolPush (length (heap w))],
                  buf := Suc (length (heap w)), quiet_bufs := 0\<rparr>
           else w)"
  using assms
  by (simp add: chain_flush_def c_and_def nonempty_def gst_buffer_get_size_def
      gst_buffer_copy_deep_def alloc_def g_thread_pool_push_def gst_buffer_new_def new_buffer_def)

lemma chain_spec:
  assumes "deref w (buf w) = Some A" "refcount A = 1" "deref w b = Some B" "b \<noteq> buf w"
    "refcount B > 0"
  shows "gst_deepspeech_chain w b = Some (chain_result w b A B)"
proof -
  let ?w1 = "w\<lparr>heap := heap_appended w A B\<rparr>"
  let ?w2 = "?w1\<lparr>quiet_bufs := quiet_next w A B\<rparr>"
  have 1: "chain_append w b (ncs_of B) = Some ?w1"
    by (rule append_spec [OF assms])
  have d1: "deref ?w1 (buf ?w1) = Some (A\<lparr>mem := seg_bytes w A B\<rparr>)"
    using deref_appended [OF assms(1)] by simp
  have 2: "chain_quiet ?w1 (ncs_of B) = Some ?w2"
    by (simp add: quiet_spec [OF d1] quiet_next_def)
  have d2: "deref ?w2 (buf ?w2) = Some (A\<lparr>mem := seg_bytes w A B\<rparr>)"
    using d1 by simp
  have 3: "chain_flush ?w2 = Some (if flushing w A B
      then ?w2\<lparr>heap := heap ?w2 @ [Some (A\<lparr>mem := seg_bytes w A B, refcount := 1\<rparr>), Some new_buffer],
                  trace := trace ?w2 @ [PoolPush (length (heap ?w2))],
                  buf := Suc (length (heap ?w2)), quiet_bufs := 0\<rparr>
           else ?w2)"
    by (simp add: flush_spec [OF d2] flushing_def)
  have e: "fst (energy_metrics (mem B)) = ncs_of B"
    by (simp add: ncs_of_def)
  show ?thesis
    unfolding gst_deepspeech_chain_def
    using assms(2) by (simp add: assms(3) case_prod_unfold e 1 2 3 gst_pad_push_def chain_result_def)
qed


lemma wf_world_iff: "wf_world w \<longleftrightarrow> (\<exists>A. deref w (buf w) = Some A \<and> refcount A = 1)"
  by (simp add: wf_world_def split: option.splits)

lemma ncs_of_refcount [simp]: "ncs_of (B\<lparr>refcount := n\<rparr>) = ncs_of B"
  by (simp add: ncs_of_def)

lemma arrived_simps [simp]:
  "heap (arrived w B) = heap w @ [Some (B\<lparr>refcount := 1\<rparr>)]"
  "trace (arrived w B) = trace w"
  "buf (arrived w B) = buf w"
  "quiet_bufs (arrived w B) = quiet_bufs w"
  "silence_threshold (arrived w B) = silence_threshold w"
  "silence_length (arrived w B) = silence_length w"
  by (simp_all add: arrived_def alloc_def)

lemma summary_arrived [simp]:
  "appending (arrived w B) = appending w"
  "seg_bytes (arrived w B) = seg_bytes w"
  "quiet_next (arrived w B) = quiet_next w"
  "flushing (arrived w B) = flushing w"
  by (simp_all add: appending_def seg_bytes_def quiet_next_def flushing_def fun_eq_iff)

lemma summary_refcount [simp]:
  "appending w A (B\<lparr>refcount := n\<rparr>) = appending w A B"
  "seg_bytes w A (B\<lparr>refcount := n\<rparr>) = seg_bytes w A B"
  "quiet_next w A (B\<lparr>refcount := n\<rparr>) = quiet_next w A B"
  "flushing w A (B\<lparr>refcount := n\<rparr>) = flushing w A B"
  by (simp_all add: appending_def seg_bytes_def quiet_next_def flushing_def)

lemma push_spec:
  assumes "deref w (buf w) = Some A" "refcount A = 1"
  shows "upstream_push w B = Some (pushed w A B)"
proof -
  let ?w1 = "arrived w B"
  let ?b = "length (heap w)"
  from deref_SomeD [OF assms(1)] have a: "buf w < length (heap w)" "heap w ! buf w = Some A"
    by simp_all
  have 1: "deref ?w1 (buf ?w1) = Some A"
    using a by (simp add: deref_def nth_append)
  have 2: "deref ?w1 ?b = Some (B\<lparr>refcount := 1\<rparr>)"
    by (simp add: deref_def)
  have 3: "?b \<noteq> buf ?w1"
    using a by simp
  have "gst_deepspeech_chain ?w1 ?b = Some (chain_result ?w1 ?b A (B\<lparr>refcount := 1\<rparr>))"
    by (rule chain_spec [OF 1 assms(2) 2 3]) simp
  then show ?thesis
    by (simp add: upstream_push_def alloc_def arrived_def pushed_def)
qed

lemma length_heap_appended:
  "length (heap_appended w A B) = (if appending w A B then Suc (length (heap w)) else length (heap w))"
  by (simp add: heap_appended_def)

lemma pushed_params [simp]:
  "silence_threshold (pushed w A B) = silence_threshold w"
  "silence_length (pushed w A B) = silence_length w"
  by (simp_all add: pushed_def chain_result_def)

lemma pushed_quiet:
  "quiet_bufs (pushed w A B) = (if flushing w A B then 0 else quiet_next w A B)"
  by (simp add: pushed_def chain_result_def)

lemma pushed_acc:
  assumes "deref w (buf w) = Some A"
  shows "deref (pushed w A B) (buf (pushed w A B)) =
           Some (if flushing w A B then new_buffer else A\<lparr>mem := seg_bytes w A B\<rparr>)"
  using deref_SomeD [OF assms]
  by (simp add: pushed_def chain_result_def deref_def nth_append heap_appended_def seg_bytes_def)

lemma pushed_wf:
  assumes "deref w (buf w) = Some A" "refcount A = 1"
  shows "wf_world (pushed w A B)"
  using pushed_acc [OF assms(1), of B] assms(2)
  by (simp add: wf_world_iff new_buffer_def)

lemma pool_pushes_append [simp]: "pool_pushes (xs @ ys) = pool_pushes xs @ pool_pushes ys"
  by (induction xs rule: pool_pushes.induct) simp_all

lemma pad_pushes_append [simp]: "pad_pushes (xs @ ys) = pad_pushes xs @ pad_pushes ys"
  by (induction xs rule: pad_pushes.induct) simp_all

lemma messages_append [simp]: "messages (xs @ ys) = messages xs @ messages ys"
  by (induction xs rule: messages.induct) simp_all

lemma pushed_pool:
  "pool_pushes (trace (pushed w A B)) =
     pool_pushes (trace w) @
       (if flushing w A B then [length (heap_appended (arrived w B) A (B\<lparr>refcount := 1\<rparr>))] else [])"
  by (simp add: pushed_def chain_result_def)

lemma pushed_pad:
  "pad_pushes (trace (pushed w A B)) = pad_pushes (trace w) @ [length (heap w)]"
  by (simp add: pushed_def chain_result_def)

lemma pushed_segment:
  assumes "flushing w A B"
  shows "deref (pushed w A B) (length (heap_appended (arrived w B) A (B\<lparr>refcount := 1\<rparr>))) =
           Some (A\<lparr>mem := seg_bytes w A B\<rparr>)"
  using assms by (simp add: pushed_def chain_result_def deref_def nth_append)

lemma pushed_frame:
  assumes "a < length (heap w)" "a \<noteq> buf w"
  shows "deref (pushed w A B) a = deref w a"
  using assms
  by (simp add: pushed_def chain_result_def deref_def nth_append heap_appended_def)

lemma pushed_forwarded:
  assumes "buf w < length (heap w)"
  shows "deref (pushed w A B) (length (heap w)) = Some (B\<lparr>refcount := 1\<rparr>)"
  using assms
  by (simp add: pushed_def chain_result_def deref_def nth_append heap_appended_def)

lemma pushed_grows: "length (heap w) < length (heap (pushed w A B))"
  by (simp add: pushed_def chain_result_def heap_appended_def)

lemma pushed_buf: "buf (pushed w A B) = buf w \<or> length (heap w) < buf (pushed w A B)"
  by (simp add: pushed_def chain_result_def heap_appended_def)

section \<open>The claims\<close>





text \<open>
  C5. A worker posts a message for its buffer exactly when the text the engine returned
  has a length above 0: then one message, with that text; for the empty text none, and
  nothing else reaches the bus.
\<close>

theorem run_model_async_posts:
  assumes "deref w a = Some B"
  shows "\<exists>w'. run_model_async model segment w a = Some w' \<and>
           trace w' = trace w @
             (if strlen (recognised model B) > 0
              then [PostMessage (gst_deepspeech_message_new segment B (recognised model B))]
              else []) \<and>
           length (messages (trace w')) =
             length (messages (trace w)) + (if length (recognised model B) > 0 then 1 else 0)"
  using assms
  by (simp add: run_model_async_def recognised_def case_prod_unfold gst_element_post_message_def
      gst_buffer_unref_def store_def strlen_def Let_def)

theorem run_model_async_posts_witness:
  "\<exists>w'. run_model_async ex_model ex_segment (ex_started ex_edge) 1 = Some w' \<and>
         trace w' = [PostMessage \<lparr>timestamp = 20000000, stream_time = 20000000,
                                   running_time = 20000000, msg_duration = 20000000,
                                   msg_text = ''a''\<rparr>]"
proof -
  have d: "deref (ex_started ex_edge) 1 = Some ex_edge"
    by (simp add: deref_def ex_started_def)
  show ?thesis
    using run_model_async_posts [OF d, of ex_model ex_segment]
    by (auto simp: recognised_def ex_model_def ex_segment_def gst_deepspeech_message_new_def
        ex_edge_def ex_started_def strlen_def)
qed

text \<open>
  C6. On end-of-stream a non-empty accumulator is copied and the copy pushed to the pool,
  once; then the pool is freed, which waits for the queued tasks; then the event goes to
  the default handler, which forwards it. An empty accumulator gives no push, and the
  store stays as it was.
\<close>

theorem eos_submits_then_drains:
  assumes "deref w (buf w) = Some A"
  shows "\<exists>w'. gst_deepspeech_sink_event w GST_EVENT_EOS = Some w' \<and>
           trace w' = trace w @ (if mem A \<noteq> [] then [PoolPush (length (heap w))] else [])
                              @ [PoolFree, EventDefault GST_EVENT_EOS] \<and>
           (if mem A \<noteq> [] then deref w' (length (heap w)) = Some (A\<lparr>refcount := 1\<rparr>)
            else heap w' = heap w) \<and>
           deref w' (buf w') = Some A \<and> quiet_bufs w' = quiet_bufs w"
  using assms deref_SomeD [OF assms]
  by (simp add: gst_deepspeech_sink_event_def nonempty_def gst_buffer_get_size_def
      gst_buffer_copy_deep_def alloc_def g_thread_pool_push_def g_thread_pool_free_def
      gst_pad_event_default_def deref_def nth_append)


theorem eos_submits_then_drains_witness:
  "(\<exists>w'. gst_deepspeech_sink_event (ex_started ex_edge) GST_EVENT_EOS = Some w' \<and>
          trace w' = [PoolPush 2, PoolFree, EventDefault GST_EVENT_EOS] \<and>
          map_option mem (deref w' 2) = Some [0xff, 0x7f]) \<and>
   (\<exists>w'. gst_deepspeech_sink_event gst_deepspeech_init GST_EVENT_EOS = Some w' \<and>
          trace w' = [PoolFree, EventDefault GST_EVENT_EOS])"
proof -
  have a: "deref (ex_started ex_edge) (buf (ex_started ex_edge)) =
             Some \<lparr>refcount = 1, mem = [0xff, 0x7f], pts = GST_CLOCK_TIME_NONE,
                    duration = GST_CLOCK_TIME_NONE\<rparr>"
    by (simp add: deref_def ex_started_def)
  have b: "deref gst_deepspeech_init (buf gst_deepspeech_init) = Some new_buffer"
    by (simp add: deref_def gst_deepspeech_init_def gst_buffer_new_def alloc_def new_buffer_def)
  have 1: "\<exists>w'. gst_deepspeech_sink_event (ex_started ex_edge) GST_EVENT_EOS = Some w' \<and>
          trace w' = [PoolPush 2, PoolFree, EventDefault GST_EVENT_EOS] \<and>
          map_option mem (deref w' 2) = Some [0xff, 0x7f]"
    using eos_submits_then_drains [OF a] by (auto simp: ex_started_def numeral_2_eq_2)
  have 2: "\<exists>w'. gst_deepspeech_sink_event gst_deepspeech_init GST_EVENT_EOS = Some w' \<and>
          trace w' = [PoolFree, EventDefault GST_EVENT_EOS]"
    using eos_submits_then_drains [OF b]
    by (auto simp: new_buffer_def gst_deepspeech_init_def gst_buffer_new_def alloc_def)
  show ?thesis using 1 2 by blast
qed

text \<open>
  C3. The bytes of the incoming buffer are appended to the accumulator exactly when its
  normalised sum of squares is above the threshold or the accumulator already holds
  bytes; so from the first loud buffer on every buffer is appended. After the whole call
  these bytes are in the accumulator, or, when the call flushed, in the buffer that was
  pushed to the pool.
\<close>

theorem append_iff_active_or_started:
  assumes "deref w (buf w) = Some A" "refcount A = 1" "deref w b = Some B" "b \<noteq> buf w"
    "0 < refcount B"
  shows "(\<exists>w1 A1. chain_append w b (ncs_of B) = Some w1 \<and>
            deref w1 (buf w1) = Some A1 \<and>
            mem A1 = (if ncs_of B > silence_threshold w \<or> mem A \<noteq> []
                      then mem A @ mem B else mem A)) \<and>
         (\<exists>w'. gst_deepspeech_chain w b = Some w' \<and>
            ((\<exists>A'. trace w' = trace w @ [PadPush b] \<and> deref w' (buf w') = Some A' \<and>
                   mem A' = (if ncs_of B > silence_threshold w \<or> mem A \<noteq> []
                             then mem A @ mem B else mem A)) \<or>
             (\<exists>d S. trace w' = trace w @ [PoolPush d, PadPush b] \<and> deref w' d = Some S \<and>
                   mem S = (if ncs_of B > silence_threshold w \<or> mem A \<noteq> []
                            then mem A @ mem B else mem A))))"
proof -
  let ?M = "if ncs_of B > silence_threshold w \<or> mem A \<noteq> [] then mem A @ mem B else mem A"
  have M: "seg_bytes w A B = ?M"
    by (simp add: seg_bytes_def appending_def)
  have 1: "chain_append w b (ncs_of B) = Some (w\<lparr>heap := heap_appended w A B\<rparr>)"
    by (rule append_spec [OF assms])
  have 2: "deref (w\<lparr>heap := heap_appended w A B\<rparr>) (buf (w\<lparr>heap := heap_appended w A B\<rparr>))
             = Some (A\<lparr>mem := seg_bytes w A B\<rparr>)"
    using deref_appended [OF assms(1)] by simp
  have first: "\<exists>w1 A1. chain_append w b (ncs_of B) = Some w1 \<and>
            deref w1 (buf w1) = Some A1 \<and> mem A1 = ?M"
    using 1 2 M by simp
  have 3: "gst_deepspeech_chain w b = Some (chain_result w b A B)"
    by (rule chain_spec [OF assms])
  from deref_SomeD [OF assms(1)] have a: "buf w < length (heap w)" "heap w ! buf w = Some A"
    by simp_all
  have second: "(\<exists>A'. trace (chain_result w b A B) = trace w @ [PadPush b] \<and>
                   deref (chain_result w b A B) (buf (chain_result w b A B)) = Some A' \<and>
                   mem A' = ?M) \<or>
             (\<exists>d S. trace (chain_result w b A B) = trace w @ [PoolPush d, PadPush b] \<and>
                   deref (chain_result w b A B) d = Some S \<and> mem S = ?M)"
  proof (cases "flushing w A B")
    case True
    then have "trace (chain_result w b A B)
                 = trace w @ [PoolPush (length (heap_appended w A B)), PadPush b]"
      and "deref (chain_result w b A B) (length (heap_appended w A B))
                 = Some (A\<lparr>mem := seg_bytes w A B\<rparr>)"
      by (simp_all add: chain_result_def deref_def nth_append)
    then show ?thesis using M by simp
  next
    case False
    then have "trace (chain_result w b A B) = trace w @ [PadPush b]"
      and "deref (chain_result w b A B) (buf (chain_result w b A B))
             = Some (A\<lparr>mem := seg_bytes w A B\<rparr>)"
      using 2 by (simp_all add: chain_result_def)
    then show ?thesis using M by simp
  qed
  show ?thesis
    using first 3 second by simp
qed

text \<open>
  C4, amended. When the normalised sum of squares of the buffer is strictly below the
  threshold and the accumulator is non-empty (after the append, which for such a buffer
  is the same as before it), the counter goes up by one; in every other case, a buffer at
  or above the threshold or an empty accumulator, it is set to 0.
\<close>

theorem quiet_counter_update:
  assumes "deref w (buf w) = Some A" "refcount A = 1" "deref w b = Some B" "b \<noteq> buf w"
    "0 < refcount B"
  shows "\<exists>w1 w2 A1. chain_append w b (ncs_of B) = Some w1 \<and>
           deref w1 (buf w1) = Some A1 \<and>
           chain_quiet w1 (ncs_of B) = Some w2 \<and>
           quiet_bufs w2 = (if ncs_of B < silence_threshold w \<and> mem A1 \<noteq> []
                            then quiet_bufs w + 1 else 0) \<and>
           quiet_bufs w2 = (if ncs_of B < silence_threshold w \<and> mem A \<noteq> []
                            then quiet_bufs w + 1 else 0)"
proof -
  let ?w1 = "w\<lparr>heap := heap_appended w A B\<rparr>"
  have 1: "chain_append w b (ncs_of B) = Some ?w1"
    by (rule append_spec [OF assms])
  have 2: "deref ?w1 (buf ?w1) = Some (A\<lparr>mem := seg_bytes w A B\<rparr>)"
    using deref_appended [OF assms(1)] by simp
  have 3: "chain_quiet ?w1 (ncs_of B) = Some (?w1\<lparr>quiet_bufs := quiet_next w A B\<rparr>)"
    by (simp add: quiet_spec [OF 2] quiet_next_def)
  have 4: "quiet_next w A B = (if ncs_of B < silence_threshold w \<and> mem A \<noteq> []
                            then quiet_bufs w + 1 else 0)"
    by (simp add: quiet_next_def seg_bytes_def appending_def)
  have 5: "quiet_next w A B = (if ncs_of B < silence_threshold w \<and> seg_bytes w A B \<noteq> []
                            then quiet_bufs w + 1 else 0)"
    by (simp add: quiet_next_def)
  show ?thesis
    using 1 2 3 4 5 by simp
qed

section \<open>The concrete streams, evaluated\<close>

lemma ncs_of_examples:
  "ncs_of ex_loud = 1073676289 / 1073741824"
  "ncs_of ex_soft = 0"
  "ncs_of ex_soft2 = 0"
  "ncs_of ex_edge = 1 / 4"
  by (simp_all add: ncs_of_def energy_metrics_def normalizer_def word_cat_eq
      double_add_def double_round_small ex_loud_def ex_soft_def ex_soft2_def ex_edge_def)

lemma ex_started_simps:
  "deref (ex_started B) (buf (ex_started B)) =
     Some \<lparr>refcount = 1, mem = [0xff, 0x7f], pts = GST_CLOCK_TIME_NONE,
            duration = GST_CLOCK_TIME_NONE\<rparr>"
  "deref (ex_started B) 1 = Some B"
  "buf (ex_started B) = 0"
  "silence_threshold (ex_started B) = 1 / 4"
  "silence_length (ex_started B) = 5"
  "quiet_bufs (ex_started B) = 0"
  "trace (ex_started B) = []"
  by (simp_all add: ex_started_def deref_def)

theorem append_iff_active_or_started_witness:
  "\<exists>w1 A1. chain_append (ex_started ex_edge) 1 (ncs_of ex_edge) = Some w1 \<and>
       deref w1 (buf w1) = Some A1 \<and> mem A1 = [0xff, 0x7f, 0x00, 0x40]"
proof -
  have r: "refcount \<lparr>refcount = 1, mem = [0xff, 0x7f], pts = GST_CLOCK_TIME_NONE,
            duration = GST_CLOCK_TIME_NONE\<rparr> = (1 :: nat)" "0 < refcount ex_edge"
    "1 \<noteq> buf (ex_started ex_edge)"
    by (simp_all add: ex_edge_def ex_started_simps)
  show ?thesis
    using append_iff_active_or_started [OF ex_started_simps(1) r(1) ex_started_simps(2) r(3) r(2)]
    by (auto simp: ex_started_simps ncs_of_examples ex_edge_def)
qed

theorem quiet_counter_update_witness:
  "\<exists>w1 w2. chain_append (ex_started ex_soft) 1 (ncs_of ex_soft) = Some w1 \<and>
       chain_quiet w1 (ncs_of ex_soft) = Some w2 \<and> quiet_bufs w2 = 1"
proof -
  have r: "refcount \<lparr>refcount = 1, mem = [0xff, 0x7f], pts = GST_CLOCK_TIME_NONE,
            duration = GST_CLOCK_TIME_NONE\<rparr> = (1 :: nat)" "0 < refcount ex_soft"
    "1 \<noteq> buf (ex_started ex_soft)"
    by (simp_all add: ex_soft_def ex_started_simps)
  show ?thesis
    using quiet_counter_update [OF ex_started_simps(1) r(1) ex_started_simps(2) r(3) r(2)]
    by (auto simp: ex_started_simps ncs_of_examples)
qed

text \<open>
  C4 as stated fails for a buffer exactly at the threshold: the edge buffer is not above
  the threshold 0.25 and the accumulator holds the loud buffer, yet the counter is 0
  after the update, not 1.
\<close>

theorem quiet_counter_edge_counterexample:
  "\<not> ncs_of ex_edge > silence_threshold (ex_started ex_edge) \<and>
   nonempty (ex_started ex_edge) (buf (ex_started ex_edge)) = Some True \<and>
   quiet_bufs (ex_started ex_edge) + 1 = 1 \<and>
   (chain_append (ex_started ex_edge) 1 (ncs_of ex_edge)
      \<bind> (\<lambda>w. chain_quiet w (ncs_of ex_edge))
      \<bind> (\<lambda>w. Some (quiet_bufs w, nonempty w (buf w)))) = Some (0, Some True) \<and>
   map_option quiet_bufs (gst_deepspeech_chain (ex_started ex_edge) 1) = Some 0"
  by code_simp

section \<open>The invariant of the counter\<close>

lemma incoming_iff:
  "incoming w b \<longleftrightarrow> (\<exists>B. deref w b = Some B \<and> 0 < refcount B \<and> b \<noteq> buf w)"
  by (simp add: incoming_def split: option.splits)

lemma quiet_inv_iff:
  assumes "deref w (buf w) = Some A"
  shows "quiet_inv w \<longleftrightarrow> quiet_bufs w \<le> silence_length w \<and> (quiet_bufs w = 0 \<or> mem A \<noteq> [])"
  using assms by (simp add: quiet_inv_def nonempty_def gst_buffer_get_size_def)

lemma chain_result_acc:
  assumes "deref w (buf w) = Some A"
  shows "deref (chain_result w b A B) (buf (chain_result w b A B)) =
           Some (if flushing w A B then new_buffer else A\<lparr>mem := seg_bytes w A B\<rparr>)"
  using deref_SomeD [OF assms]
  by (simp add: chain_result_def deref_def nth_append heap_appended_def seg_bytes_def)

lemma quiet_next_empty: "seg_bytes w A B = [] \<Longrightarrow> quiet_next w A B = 0"
  by (simp add: quiet_next_def)

lemma chain_result_quiet_inv:
  assumes "deref w (buf w) = Some A"
  shows "quiet_inv (chain_result w b A B)"
proof (cases "flushing w A B")
  case True
  then have acc: "deref (chain_result w b A B) (buf (chain_result w b A B)) = Some new_buffer"
    using chain_result_acc [OF assms, of b B] by simp
  have "quiet_bufs (chain_result w b A B) = 0"
    using True by (simp add: chain_result_def)
  then show ?thesis
    unfolding quiet_inv_iff [OF acc] by simp
next
  case False
  then have acc: "deref (chain_result w b A B) (buf (chain_result w b A B))
                    = Some (A\<lparr>mem := seg_bytes w A B\<rparr>)"
    using chain_result_acc [OF assms, of b B] by simp
  have q: "quiet_bufs (chain_result w b A B) = quiet_next w A B"
    and l: "silence_length (chain_result w b A B) = silence_length w"
    using False by (simp_all add: chain_result_def)
  have "quiet_next w A B \<le> silence_length w \<and> (quiet_next w A B = 0 \<or> seg_bytes w A B \<noteq> [])"
  proof (cases "seg_bytes w A B = []")
    case True
    then show ?thesis by (simp add: quiet_next_empty)
  next
    case nonempty: False
    with False have "\<not> silence_length w < quiet_next w A B"
      unfolding flushing_def by blast
    then show ?thesis using nonempty by (simp add: not_less)
  qed
  then show ?thesis
    unfolding quiet_inv_iff [OF acc] q l by simp
qed

lemma chain_result_wf:
  assumes "deref w (buf w) = Some A" "refcount A = 1"
  shows "wf_world (chain_result w b A B)"
  using chain_result_acc [OF assms(1), of b B] assms(2)
  by (simp add: wf_world_iff new_buffer_def)

lemma sink_event_spec:
  assumes "deref w (buf w) = Some A"
  shows "\<exists>w'. gst_deepspeech_sink_event w ev = Some w' \<and> deref w' (buf w') = Some A \<and>
           quiet_bufs w' = quiet_bufs w \<and> silence_length w' = silence_length w"
  using assms deref_SomeD [OF assms]
  by (cases ev)
     (simp_all add: gst_deepspeech_sink_event_def nonempty_def gst_buffer_get_size_def
      gst_buffer_copy_deep_def alloc_def g_thread_pool_push_def g_thread_pool_free_def
      gst_pad_event_default_def deref_def nth_append)

lemma init_acc: "deref gst_deepspeech_init (buf gst_deepspeech_init) = Some new_buffer"
  by (simp add: deref_def gst_deepspeech_init_def gst_buffer_new_def alloc_def new_buffer_def)

text \<open>
  C10. After every call of the chain function the quiet counter is at most the limit,
  and it is above 0 only while the accumulator holds bytes, whatever the state before
  the call. A sink event, end-of-stream included, changes neither the counter nor the
  accumulator and so keeps both facts; the initial state has them.
\<close>

theorem quiet_invariant:
  "(wf_world w \<and> incoming w b \<longrightarrow>
      (\<exists>w'. gst_deepspeech_chain w b = Some w' \<and> wf_world w' \<and> quiet_inv w')) \<and>
   (wf_world w \<and> quiet_inv w \<longrightarrow>
      (\<exists>w'. gst_deepspeech_sink_event w ev = Some w' \<and> wf_world w' \<and> quiet_inv w')) \<and>
   wf_world gst_deepspeech_init \<and> quiet_inv gst_deepspeech_init"
proof (intro conjI impI)
  assume h: "wf_world w \<and> incoming w b"
  then obtain A B where A: "deref w (buf w) = Some A" "refcount A = 1"
    and B: "deref w b = Some B" "0 < refcount B" "b \<noteq> buf w"
    by (auto simp: wf_world_iff incoming_iff)
  have "gst_deepspeech_chain w b = Some (chain_result w b A B)"
    by (rule chain_spec [OF A B(1) B(3) B(2)])
  then show "\<exists>w'. gst_deepspeech_chain w b = Some w' \<and> wf_world w' \<and> quiet_inv w'"
    using chain_result_wf [OF A] chain_result_quiet_inv [OF A(1)] by simp
next
  assume h: "wf_world w \<and> quiet_inv w"
  then obtain A where A: "deref w (buf w) = Some A" "refcount A = 1"
    by (auto simp: wf_world_iff)
  from sink_event_spec [OF A(1), of ev] obtain w' where
    w': "gst_deepspeech_sink_event w ev = Some w'" "deref w' (buf w') = Some A"
      "quiet_bufs w' = quiet_bufs w" "silence_length w' = silence_length w"
    by blast
  have "wf_world w'" using w'(2) A(2) by (simp add: wf_world_iff)
  moreover have "quiet_inv w'"
    using h by (simp add: quiet_inv_iff [OF w'(2)] quiet_inv_iff [OF A(1)] w'(3,4))
  ultimately show "\<exists>w'. gst_deepspeech_sink_event w ev = Some w' \<and> wf_world w' \<and> quiet_inv w'"
    using w'(1) by blast
next
  show "wf_world gst_deepspeech_init"
    using init_acc by (simp add: wf_world_iff new_buffer_def)
next
  show "quiet_inv gst_deepspeech_init"
    by (simp add: quiet_inv_iff [OF init_acc])
       (simp add: gst_deepspeech_init_def gst_buffer_new_def alloc_def)
qed

theorem quiet_invariant_witness:
  "(\<exists>w'. gst_deepspeech_chain (ex_started ex_soft) 1 = Some w' \<and> wf_world w' \<and> quiet_inv w') \<and>
   (\<exists>w'. gst_deepspeech_sink_event (ex_started ex_soft) GST_EVENT_EOS = Some w' \<and>
          wf_world w' \<and> quiet_inv w')"
proof -
  have 1: "wf_world (ex_started ex_soft)" "incoming (ex_started ex_soft) 1"
    "quiet_inv (ex_started ex_soft)"
    by (simp_all add: wf_world_def incoming_def quiet_inv_def nonempty_def gst_buffer_get_size_def
        deref_def ex_started_def ex_soft_def)
  show ?thesis
    using quiet_invariant [of "ex_started ex_soft" 1 GST_EVENT_EOS] 1 by simp
qed

section \<open>Streams of buffers\<close>

lemma stream_append:
  "stream w (xs @ ys) = stream w xs \<bind> (\<lambda>w'. stream w' ys)"
  by (induction xs arbitrary: w) simp_all

lemma ncs_of_empty: "mem B = [] \<Longrightarrow> ncs_of B = 0"
  by (simp add: ncs_of_def energy_metrics_def normalizer_def)

lemma pushed_no_free:
  "(PoolFree \<in> set (trace (pushed w A B))) = (PoolFree \<in> set (trace w))"
  by (simp add: pushed_def chain_result_def)

lemma stream_forwards:
  assumes "wf_world w"
  shows "\<exists>w' as. stream w Bs = Some w' \<and> wf_world w' \<and>
           pad_pushes (trace w') = pad_pushes (trace w) @ as \<and>
           map (deref w') as = map (\<lambda>B. Some (B\<lparr>refcount := 1\<rparr>)) Bs \<and>
           (PoolFree \<in> set (trace w')) = (PoolFree \<in> set (trace w)) \<and>
           length (heap w) \<le> length (heap w') \<and>
           (\<forall>a < length (heap w). a \<noteq> buf w \<longrightarrow> deref w' a = deref w a) \<and>
           (buf w' = buf w \<or> length (heap w) \<le> buf w')"
  using assms
proof (induction Bs arbitrary: w)
  case Nil
  then show ?case by simp
next
  case (Cons B Bs)
  from Cons.prems obtain A where A: "deref w (buf w) = Some A" "refcount A = 1"
    by (auto simp: wf_world_iff)
  let ?w1 = "pushed w A B"
  let ?b = "length (heap w)"
  have lt: "buf w < ?b" using deref_SomeD [OF A(1)] by simp
  have step: "upstream_push w B = Some ?w1" by (rule push_spec [OF A])
  have wf1: "wf_world ?w1" by (rule pushed_wf [OF A])
  from Cons.IH [OF wf1] obtain w' as where
    run: "stream ?w1 Bs = Some w'" and wf': "wf_world w'"
    and pads: "pad_pushes (trace w') = pad_pushes (trace ?w1) @ as"
    and fwd: "map (deref w') as = map (\<lambda>B. Some (B\<lparr>refcount := 1\<rparr>)) Bs"
    and free: "(PoolFree \<in> set (trace w')) = (PoolFree \<in> set (trace ?w1))"
    and len: "length (heap ?w1) \<le> length (heap w')"
    and frame: "\<forall>a < length (heap ?w1). a \<noteq> buf ?w1 \<longrightarrow> deref w' a = deref ?w1 a"
    and acc: "buf w' = buf ?w1 \<or> length (heap ?w1) \<le> buf w'"
    by blast
  have grow: "?b < length (heap ?w1)" by (rule pushed_grows)
  have buf1: "buf ?w1 = buf w \<or> ?b < buf ?w1" by (rule pushed_buf)
  have b_ne: "?b \<noteq> buf ?w1" using buf1 lt by auto
  have "deref w' ?b = deref ?w1 ?b" using frame grow b_ne by simp
  then have here: "deref w' ?b = Some (B\<lparr>refcount := 1\<rparr>)"
    using pushed_forwarded [OF lt, of A B] by simp
  have 1: "stream w (B # Bs) = Some w'" using step run by simp
  have 2: "pad_pushes (trace w') = pad_pushes (trace w) @ (?b # as)"
    using pads by (simp add: pushed_pad)
  have 3: "map (deref w') (?b # as) = map (\<lambda>B. Some (B\<lparr>refcount := 1\<rparr>)) (B # Bs)"
    using here fwd by simp
  have 4: "(PoolFree \<in> set (trace w')) = (PoolFree \<in> set (trace w))"
    using free by (simp add: pushed_no_free)
  have 5: "length (heap w) \<le> length (heap w')" using len grow by simp
  have 6: "\<forall>a < length (heap w). a \<noteq> buf w \<longrightarrow> deref w' a = deref w a"
  proof (intro allI impI)
    fix a assume a: "a < length (heap w)" "a \<noteq> buf w"
    then have "a < length (heap ?w1)" "a \<noteq> buf ?w1" using grow buf1 by auto
    then have "deref w' a = deref ?w1 a" using frame by simp
    then show "deref w' a = deref w a" using pushed_frame [OF a, of A B] by simp
  qed
  have 7: "buf w' = buf w \<or> length (heap w) \<le> buf w'"
    using acc buf1 grow by auto
  show ?case using 1 wf' 2 3 4 5 6 7 by blast
qed

lemma chain_result_frame:
  assumes "deref w (buf w) = Some A" "deref w b = Some B" "b \<noteq> buf w"
  shows "deref (chain_result w b A B) b = Some B"
  using deref_SomeD [OF assms(1)] deref_SomeD [OF assms(2)] assms(3)
  by (simp add: chain_result_def deref_def nth_append heap_appended_def)

text \<open>
  C8. Every call of the chain function pushes its buffer on the source pad, once and as
  the last thing it does, and leaves the buffer in the store as it was, reference count
  included; it never frees the pool, the one operation that waits for a worker. For a
  stream of buffers from upstream, the buffers pushed downstream are these buffers, each
  once, in their order, with bytes, timestamp and duration as they arrived.
\<close>

theorem forwarded_unmodified_in_order:
  "(wf_world w \<and> incoming w b \<longrightarrow>
      (\<exists>w'. gst_deepspeech_chain w b = Some w' \<and> deref w' b = deref w b \<and>
             pad_pushes (trace w') = pad_pushes (trace w) @ [b] \<and>
             (PoolFree \<in> set (trace w')) = (PoolFree \<in> set (trace w)))) \<and>
   (wf_world w \<longrightarrow>
      (\<exists>w' as. stream w Bs = Some w' \<and>
             pad_pushes (trace w') = pad_pushes (trace w) @ as \<and>
             map (deref w') as = map (\<lambda>B. Some (B\<lparr>refcount := 1\<rparr>)) Bs \<and>
             (PoolFree \<in> set (trace w')) = (PoolFree \<in> set (trace w))))"
proof (intro conjI impI)
  assume "wf_world w \<and> incoming w b"
  then obtain A B where A: "deref w (buf w) = Some A" "refcount A = 1"
    and B: "deref w b = Some B" "0 < refcount B" "b \<noteq> buf w"
    by (auto simp: wf_world_iff incoming_iff)
  have 1: "gst_deepspeech_chain w b = Some (chain_result w b A B)"
    by (rule chain_spec [OF A B(1) B(3) B(2)])
  have 2: "deref (chain_result w b A B) b = deref w b"
    using chain_result_frame [OF A(1) B(1) B(3)] B(1) by simp
  have 3: "pad_pushes (trace (chain_result w b A B)) = pad_pushes (trace w) @ [b]"
    by (simp add: chain_result_def)
  have 4: "(PoolFree \<in> set (trace (chain_result w b A B))) = (PoolFree \<in> set (trace w))"
    by (simp add: chain_result_def)
  show "\<exists>w'. gst_deepspeech_chain w b = Some w' \<and> deref w' b = deref w b \<and>
             pad_pushes (trace w') = pad_pushes (trace w) @ [b] \<and>
             (PoolFree \<in> set (trace w')) = (PoolFree \<in> set (trace w))"
    using 1 2 3 4 by simp
next
  assume "wf_world w"
  from stream_forwards [OF this, of Bs]
  show "\<exists>w' as. stream w Bs = Some w' \<and>
             pad_pushes (trace w') = pad_pushes (trace w) @ as \<and>
             map (deref w') as = map (\<lambda>B. Some (B\<lparr>refcount := 1\<rparr>)) Bs \<and>
             (PoolFree \<in> set (trace w')) = (PoolFree \<in> set (trace w))"
    by blast
qed

theorem forwarded_unmodified_in_order_witness:
  "(\<exists>w'. gst_deepspeech_chain (ex_started ex_soft) 1 = Some w' \<and>
          deref w' 1 = Some ex_soft \<and> pad_pushes (trace w') = [1]) \<and>
   (\<exists>w' as. stream (ex_world 1) [ex_loud, ex_soft, ex_soft2] = Some w' \<and>
          pad_pushes (trace w') = as \<and>
          map (deref w') as = [Some ex_loud, Some ex_soft, Some ex_soft2])"
proof -
  have 1: "wf_world (ex_started ex_soft) \<and> incoming (ex_started ex_soft) 1"
    by (simp add: wf_world_def incoming_def deref_def ex_started_def ex_soft_def)
  have 2: "wf_world (ex_world 1)"
    by (simp add: wf_world_def deref_def ex_world_def set_silence_length_def
        set_silence_threshold_def gst_deepspeech_init_def gst_buffer_new_def alloc_def)
  have 3: "trace (ex_world 1) = []"
    by (simp add: ex_world_def set_silence_length_def set_silence_threshold_def
        gst_deepspeech_init_def gst_buffer_new_def alloc_def)
  have 4: "deref (ex_started ex_soft) 1 = Some ex_soft" "trace (ex_started ex_soft) = []"
    by (simp_all add: ex_started_def deref_def)
  have r: "ex_loud\<lparr>refcount := 1\<rparr> = ex_loud" "ex_soft\<lparr>refcount := 1\<rparr> = ex_soft"
    "ex_soft2\<lparr>refcount := 1\<rparr> = ex_soft2"
    by (simp_all add: ex_loud_def ex_soft_def ex_soft2_def)
  note inst = forwarded_unmodified_in_order [of _ _ "[ex_loud, ex_soft, ex_soft2]"]
  from inst [of "ex_started ex_soft" 1, THEN conjunct1, rule_format, OF 1]
  obtain w1 where a: "gst_deepspeech_chain (ex_started ex_soft) 1 = Some w1"
    "deref w1 1 = deref (ex_started ex_soft) 1"
    "pad_pushes (trace w1) = pad_pushes (trace (ex_started ex_soft)) @ [1]"
    by blast
  from inst [of "ex_world 1" 1, THEN conjunct2, rule_format, OF 2]
  obtain w2 as where b: "stream (ex_world 1) [ex_loud, ex_soft, ex_soft2] = Some w2"
    "pad_pushes (trace w2) = pad_pushes (trace (ex_world 1)) @ as"
    "map (deref w2) as = map (\<lambda>B. Some (B\<lparr>refcount := 1\<rparr>)) [ex_loud, ex_soft, ex_soft2]"
    by blast
  have first: "\<exists>w'. gst_deepspeech_chain (ex_started ex_soft) 1 = Some w' \<and>
          deref w' 1 = Some ex_soft \<and> pad_pushes (trace w') = [1]"
    using a unfolding 4 by simp
  have p: "pad_pushes (trace w2) = as" using b(2) unfolding 3 by simp
  have m: "map (deref w2) (pad_pushes (trace w2)) = [Some ex_loud, Some ex_soft, Some ex_soft2]"
    using b(3) unfolding list.map r p by simp
  have second: "\<exists>w' as. stream (ex_world 1) [ex_loud, ex_soft, ex_soft2] = Some w' \<and>
          pad_pushes (trace w') = as \<and>
          map (deref w') as = [Some ex_loud, Some ex_soft, Some ex_soft2]"
    by (intro exI conjI, rule b(1), rule refl, rule m)
  show ?thesis using first second by (rule conjI)
qed

section \<open>Runs of loud and of quiet buffers\<close>

lemma ncs_of_pos_nonempty: "0 < ncs_of B \<Longrightarrow> mem B \<noteq> []"
  using ncs_of_empty [of B] by auto

lemma loud_step:
  assumes "silence_threshold w < ncs_of B" "0 \<le> silence_threshold w"
  shows "seg_bytes w A B = mem A @ mem B" "seg_bytes w A B \<noteq> []"
    "quiet_next w A B = 0" "\<not> flushing w A B"
proof -
  have "mem B \<noteq> []" using assms by (intro ncs_of_pos_nonempty) simp
  then show "seg_bytes w A B = mem A @ mem B" "seg_bytes w A B \<noteq> []"
    using assms(1) by (simp_all add: seg_bytes_def appending_def)
  show q: "quiet_next w A B = 0" using assms(1) by (simp add: quiet_next_def)
  show "\<not> flushing w A B" unfolding flushing_def q by simp
qed

lemma quiet_step:
  assumes "ncs_of B < silence_threshold w" "mem A \<noteq> []"
  shows "seg_bytes w A B = mem A @ mem B" "seg_bytes w A B \<noteq> []"
    "quiet_next w A B = quiet_bufs w + 1"
    "flushing w A B \<longleftrightarrow> silence_length w < quiet_bufs w + 1"
proof -
  show s: "seg_bytes w A B = mem A @ mem B" "seg_bytes w A B \<noteq> []"
    using assms(2) by (simp_all add: seg_bytes_def appending_def)
  show q: "quiet_next w A B = quiet_bufs w + 1"
    using assms(1) s(2) by (simp add: quiet_next_def)
  show "flushing w A B \<longleftrightarrow> silence_length w < quiet_bufs w + 1"
    unfolding flushing_def q using s(2) by simp
qed

lemma unat_inc:
  fixes q l :: "32 word"
  assumes "unat q < unat l"
  shows "unat (q + 1) = unat q + 1"
proof -
  have "unat l < 2 ^ 32" using unsigned_less [of l] by simp
  then have "unat q + unat (1 :: 32 word) < 2 ^ LENGTH(32)" using assms by simp
  then have "unat (q + 1) = unat q + unat (1 :: 32 word)" by (simp only: unat_add_lem)
  then show ?thesis by simp
qed

lemma stream_loud:
  assumes "wf_world w" "\<forall>B\<in>set Bs. silence_threshold w < ncs_of B"
    "0 \<le> silence_threshold w" "Bs \<noteq> []"
  shows "\<exists>w' A'. stream w Bs = Some w' \<and> wf_world w' \<and>
           silence_threshold w' = silence_threshold w \<and>
           silence_length w' = silence_length w \<and>
           deref w' (buf w') = Some A' \<and> mem A' \<noteq> [] \<and> quiet_bufs w' = 0 \<and>
           pool_pushes (trace w') = pool_pushes (trace w)"
  using assms(4,1,2,3)
proof (induction Bs arbitrary: w rule: list_nonempty_induct)
  case (single B)
  from single.prems obtain A where A: "deref w (buf w) = Some A" "refcount A = 1"
    by (auto simp: wf_world_iff)
  have loud: "silence_threshold w < ncs_of B" using single.prems by simp
  note l = loud_step [OF loud single.prems(3), of A]
  have "upstream_push w B = Some (pushed w A B)" by (rule push_spec [OF A])
  moreover have "wf_world (pushed w A B)" by (rule pushed_wf [OF A])
  moreover have "deref (pushed w A B) (buf (pushed w A B)) = Some (A\<lparr>mem := seg_bytes w A B\<rparr>)"
    using pushed_acc [OF A(1), of B] l(4) by simp
  moreover have "quiet_bufs (pushed w A B) = 0"
    using l(3,4) by (simp add: pushed_quiet)
  moreover have "pool_pushes (trace (pushed w A B)) = pool_pushes (trace w)"
    using l(4) by (simp add: pushed_pool)
  ultimately show ?case using l(2) by simp
next
  case (cons B Bs)
  from cons.prems obtain A where A: "deref w (buf w) = Some A" "refcount A = 1"
    by (auto simp: wf_world_iff)
  have loud: "silence_threshold w < ncs_of B" using cons.prems by simp
  note l = loud_step [OF loud cons.prems(3), of A]
  let ?w1 = "pushed w A B"
  have step: "upstream_push w B = Some ?w1" by (rule push_spec [OF A])
  have wf1: "wf_world ?w1" by (rule pushed_wf [OF A])
  have pool1: "pool_pushes (trace ?w1) = pool_pushes (trace w)"
    using l(4) by (simp add: pushed_pool)
  have rest: "\<forall>B\<in>set Bs. silence_threshold ?w1 < ncs_of B" "0 \<le> silence_threshold ?w1"
    using cons.prems by simp_all
  from cons.IH [OF wf1 rest] obtain w' A' where
    "stream ?w1 Bs = Some w'" "wf_world w'"
    "silence_threshold w' = silence_threshold ?w1" "silence_length w' = silence_length ?w1"
    "deref w' (buf w') = Some A'" "mem A' \<noteq> []" "quiet_bufs w' = 0"
    "pool_pushes (trace w') = pool_pushes (trace ?w1)"
    by blast
  then show ?case using step pool1 by simp
qed

lemma stream_quiet:
  assumes "wf_world w" "deref w (buf w) = Some A" "mem A \<noteq> []"
    "\<forall>B\<in>set Bs. ncs_of B < silence_threshold w"
    "unat (quiet_bufs w) + length Bs \<le> unat (silence_length w)"
  shows "\<exists>w' A'. stream w Bs = Some w' \<and> wf_world w' \<and>
           silence_threshold w' = silence_threshold w \<and>
           silence_length w' = silence_length w \<and>
           deref w' (buf w') = Some A' \<and> mem A' \<noteq> [] \<and>
           unat (quiet_bufs w') = unat (quiet_bufs w) + length Bs \<and>
           pool_pushes (trace w') = pool_pushes (trace w)"
  using assms
proof (induction Bs arbitrary: w A)
  case Nil
  then show ?case by simp
next
  case (Cons B Bs)
  from Cons.prems(1,2) have A: "deref w (buf w) = Some A" "refcount A = 1"
    by (auto simp: wf_world_iff)
  have quiet: "ncs_of B < silence_threshold w" using Cons.prems(4) by simp
  note q = quiet_step [OF quiet Cons.prems(3), of ]
  have lt: "unat (quiet_bufs w) < unat (silence_length w)" using Cons.prems(5) by simp
  have inc: "unat (quiet_bufs w + 1) = unat (quiet_bufs w) + 1" by (rule unat_inc [OF lt])
  have nf: "\<not> flushing w A B"
    unfolding q(4) word_less_nat_alt inc using lt by simp
  let ?w1 = "pushed w A B"
  have step: "upstream_push w B = Some ?w1" by (rule push_spec [OF A])
  have wf1: "wf_world ?w1" by (rule pushed_wf [OF A])
  have acc1: "deref ?w1 (buf ?w1) = Some (A\<lparr>mem := seg_bytes w A B\<rparr>)"
    using pushed_acc [OF A(1), of B] nf by simp
  have ne1: "mem (A\<lparr>mem := seg_bytes w A B\<rparr>) \<noteq> []" using q(2) by simp
  have q1: "quiet_bufs ?w1 = quiet_bufs w + 1" using nf q(3) by (simp add: pushed_quiet)
  have pool1: "pool_pushes (trace ?w1) = pool_pushes (trace w)"
    using nf by (simp add: pushed_pool)
  have rest: "\<forall>B\<in>set Bs. ncs_of B < silence_threshold ?w1"
    "unat (quiet_bufs ?w1) + length Bs \<le> unat (silence_length ?w1)"
    using Cons.prems(4,5) by (simp_all add: q1 inc)
  from Cons.IH [OF wf1 acc1 ne1 rest] obtain w' A' where
    "stream ?w1 Bs = Some w'" "wf_world w'"
    "silence_threshold w' = silence_threshold ?w1" "silence_length w' = silence_length ?w1"
    "deref w' (buf w') = Some A'" "mem A' \<noteq> []"
    "unat (quiet_bufs w') = unat (quiet_bufs ?w1) + length Bs"
    "pool_pushes (trace w') = pool_pushes (trace ?w1)"
    by blast
  then show ?case using step pool1 by (simp add: q1 inc)
qed

lemma quiet_last:
  fixes w :: world
  assumes "deref w (buf w) = Some A" "refcount A = 1" "mem A \<noteq> []"
    "ncs_of B < silence_threshold w"
    "unat (quiet_bufs w) = unat (silence_length w)" "silence_length w \<le> G_MAXINT"
  shows "\<exists>w' d S. upstream_push w B = Some w' \<and>
           pool_pushes (trace w') = pool_pushes (trace w) @ [d] \<and>
           deref w' d = Some S \<and> mem S = mem A @ mem B \<and>
           quiet_bufs w' = 0 \<and> deref w' (buf w') = Some new_buffer"
proof -
  note q = quiet_step [OF assms(4,3)]
  have "unat (silence_length w) < unat (G_MAXINT + 1)"
    using assms(6) by (simp add: word_le_nat_alt G_MAXINT_def)
  then have lt: "unat (quiet_bufs w) < unat (G_MAXINT + 1)" using assms(5) by simp
  have inc: "unat (quiet_bufs w + 1) = unat (quiet_bufs w) + 1" by (rule unat_inc [OF lt])
  have fl: "flushing w A B"
    unfolding q(4) word_less_nat_alt inc using assms(5) by simp
  let ?w1 = "pushed w A B"
  let ?d = "length (heap_appended (arrived w B) A (B\<lparr>refcount := 1\<rparr>))"
  have "upstream_push w B = Some ?w1" by (rule push_spec [OF assms(1,2)])
  moreover have "pool_pushes (trace ?w1) = pool_pushes (trace w) @ [?d]"
    using fl by (simp add: pushed_pool)
  moreover have "deref ?w1 ?d = Some (A\<lparr>mem := seg_bytes w A B\<rparr>)"
    by (rule pushed_segment [OF fl])
  moreover have "quiet_bufs ?w1 = 0" using fl by (simp add: pushed_quiet)
  moreover have "deref ?w1 (buf ?w1) = Some new_buffer"
    using pushed_acc [OF assms(1), of B] fl by simp
  ultimately show ?thesis using q(1) by simp
qed

lemma ncs_of_nonneg: "0 \<le> ncs_of B"
proof -
  have "0 \<le> fst (energy_loop (gint16_array (mem B)) (0, 0))"
    by (rule energy_loop_nonneg) simp
  then show ?thesis
    by (simp add: ncs_of_def energy_metrics_def normalizer_def case_prod_unfold Let_def)
qed

lemma flush_after_quiet_run:
  assumes "wf_world w" "Bs1 \<noteq> []" "\<forall>B\<in>set Bs1. silence_threshold w < ncs_of B"
    "\<forall>B\<in>set Bs2. ncs_of B < silence_threshold w"
    "length Bs2 = unat (silence_length w) + 1" "silence_length w \<le> G_MAXINT"
  shows "\<exists>w' d S. stream w (Bs1 @ Bs2) = Some w' \<and>
           pool_pushes (trace w') = pool_pushes (trace w) @ [d] \<and>
           deref w' d = Some S \<and> mem S \<noteq> [] \<and>
           quiet_bufs w' = 0 \<and> deref w' (buf w') = Some new_buffer"
proof -
  from assms(5) have ne2: "Bs2 \<noteq> []" by auto
  then obtain Bl where Bl: "Bl \<in> set Bs2" "Bs2 = butlast Bs2 @ [Bl]"
    by (metis append_butlast_last_id last_in_set)
  have "ncs_of Bl < silence_threshold w" using assms(4) Bl(1) by simp
  then have thr: "0 \<le> silence_threshold w" using ncs_of_nonneg [of Bl] by simp
  from stream_loud [OF assms(1,3) thr assms(2)] obtain w1 A1 where
    1: "stream w Bs1 = Some w1" "wf_world w1"
      "silence_threshold w1 = silence_threshold w" "silence_length w1 = silence_length w"
      "deref w1 (buf w1) = Some A1" "mem A1 \<noteq> []" "quiet_bufs w1 = 0"
      "pool_pushes (trace w1) = pool_pushes (trace w)"
    by blast
  have q: "\<forall>B\<in>set (butlast Bs2). ncs_of B < silence_threshold w1"
    using assms(4) 1(3) by (auto dest: in_set_butlastD)
  have len: "unat (quiet_bufs w1) + length (butlast Bs2) \<le> unat (silence_length w1)"
    using assms(5) 1(4,7) by simp
  from stream_quiet [OF 1(2,5,6) q len] obtain w2 A2 where
    2: "stream w1 (butlast Bs2) = Some w2" "wf_world w2"
      "silence_threshold w2 = silence_threshold w1" "silence_length w2 = silence_length w1"
      "deref w2 (buf w2) = Some A2" "mem A2 \<noteq> []"
      "unat (quiet_bufs w2) = unat (quiet_bufs w1) + length (butlast Bs2)"
      "pool_pushes (trace w2) = pool_pushes (trace w1)"
    by blast
  have r2: "refcount A2 = 1" using 2(2,5) by (simp add: wf_world_iff)
  have ql: "ncs_of Bl < silence_threshold w2" using assms(4) Bl(1) 1(3) 2(3) by simp
  have eq: "unat (quiet_bufs w2) = unat (silence_length w2)"
    using 2(7) 1(7) 2(4) 1(4) assms(5) by simp
  have mx: "silence_length w2 \<le> G_MAXINT" using assms(6) 2(4) 1(4) by simp
  from quiet_last [OF 2(5) r2 2(6) ql eq mx] obtain w' d S where
    3: "upstream_push w2 Bl = Some w'"
      "pool_pushes (trace w') = pool_pushes (trace w2) @ [d]"
      "deref w' d = Some S" "mem S = mem A2 @ mem Bl"
      "quiet_bufs w' = 0" "deref w' (buf w') = Some new_buffer"
    by blast
  have "stream w (Bs1 @ butlast Bs2 @ [Bl]) = Some w'"
    using 1(1) 2(1) 3(1) by (simp add: stream_append)
  then have run: "stream w (Bs1 @ Bs2) = Some w'" using Bl(2) by simp
  have pool: "pool_pushes (trace w') = pool_pushes (trace w) @ [d]"
    using 3(2) 2(8) 1(8) by simp
  have "mem S \<noteq> []" using 3(4) 2(6) by simp
  then show ?thesis using run pool 3(3,5,6) by blast
qed

lemma flush_decision:
  assumes "deref w (buf w) = Some A" "refcount A = 1" "deref w b = Some B" "b \<noteq> buf w"
    "0 < refcount B"
  shows "\<exists>w1 w2 w3 A2. chain_append w b (ncs_of B) = Some w1 \<and>
           chain_quiet w1 (ncs_of B) = Some w2 \<and> deref w2 (buf w2) = Some A2 \<and>
           chain_flush w2 = Some w3 \<and>
           gst_deepspeech_chain w b = Some (gst_pad_push w3 b) \<and>
           (if silence_length w2 < quiet_bufs w2 \<and> mem A2 \<noteq> []
            then trace w3 = trace w2 @ [PoolPush (length (heap w2))] \<and>
                 deref w3 (length (heap w2)) = Some A2 \<and>
                 quiet_bufs w3 = 0 \<and>
                 deref w3 (buf w3) = Some new_buffer \<and> buf w3 \<noteq> buf w2
            else w3 = w2)"
proof -
  let ?w1 = "w\<lparr>heap := heap_appended w A B\<rparr>"
  let ?w2 = "?w1\<lparr>quiet_bufs := quiet_next w A B\<rparr>"
  let ?A2 = "A\<lparr>mem := seg_bytes w A B\<rparr>"
  let ?w3 = "if silence_length ?w2 < quiet_bufs ?w2 \<and> mem ?A2 \<noteq> []
      then ?w2\<lparr>heap := heap ?w2 @ [Some (?A2\<lparr>refcount := 1\<rparr>), Some new_buffer],
                  trace := trace ?w2 @ [PoolPush (length (heap ?w2))],
                  buf := Suc (length (heap ?w2)), quiet_bufs := 0\<rparr>
      else ?w2"
  have 1: "chain_append w b (ncs_of B) = Some ?w1"
    by (rule append_spec [OF assms])
  have d1: "deref ?w1 (buf ?w1) = Some ?A2"
    using deref_appended [OF assms(1)] by simp
  have 2: "chain_quiet ?w1 (ncs_of B) = Some ?w2"
    by (simp add: quiet_spec [OF d1] quiet_next_def)
  have d2: "deref ?w2 (buf ?w2) = Some ?A2"
    using d1 by simp
  have 3: "chain_flush ?w2 = Some ?w3"
    by (rule flush_spec [OF d2])
  have e: "fst (energy_metrics (mem B)) = ncs_of B"
    by (simp add: ncs_of_def)
  have 4: "gst_deepspeech_chain w b = Some (gst_pad_push ?w3 b)"
    unfolding gst_deepspeech_chain_def
    by (simp add: assms(3) case_prod_unfold e 1 2 3)
  have r: "?A2\<lparr>refcount := 1\<rparr> = ?A2" using assms(2) by simp
  have lt: "buf w < length (heap_appended w A B)"
    using deref_SomeD [OF assms(1)] by (simp add: heap_appended_def)
  have 5: "if silence_length ?w2 < quiet_bufs ?w2 \<and> mem ?A2 \<noteq> []
            then trace ?w3 = trace ?w2 @ [PoolPush (length (heap ?w2))] \<and>
                 deref ?w3 (length (heap ?w2)) = Some ?A2 \<and>
                 quiet_bufs ?w3 = 0 \<and>
                 deref ?w3 (buf ?w3) = Some new_buffer \<and> buf ?w3 \<noteq> buf ?w2
            else ?w3 = ?w2"
    using lt r by (simp add: deref_def nth_append)
  show ?thesis
    using 1 2 d2 3 4 5 by blast
qed


text \<open>
  C2, amended. In every call of the chain function the flush happens exactly when, after
  the update of the counter, the counter is above the limit and the accumulator is
  non-empty; the flush pushes one copy of the accumulator to the pool, sets the counter
  to 0 and makes a new empty buffer the accumulator. For a stream of one or more buffers
  above the threshold followed by exactly limit + 1 buffers strictly below it (with the
  limit in the range of the property, at most \<^verbatim>\<open>G_MAXINT\<close>), exactly one flush happens,
  at the last buffer.
\<close>

theorem flush_rule:
  "(wf_world w \<and> incoming w b \<longrightarrow>
      (\<exists>B w1 w2 w3 A2. deref w b = Some B \<and>
           chain_append w b (ncs_of B) = Some w1 \<and>
           chain_quiet w1 (ncs_of B) = Some w2 \<and> deref w2 (buf w2) = Some A2 \<and>
           chain_flush w2 = Some w3 \<and>
           gst_deepspeech_chain w b = Some (gst_pad_push w3 b) \<and>
           (if silence_length w2 < quiet_bufs w2 \<and> mem A2 \<noteq> []
            then trace w3 = trace w2 @ [PoolPush (length (heap w2))] \<and>
                 deref w3 (length (heap w2)) = Some A2 \<and>
                 quiet_bufs w3 = 0 \<and>
                 deref w3 (buf w3) = Some new_buffer \<and> buf w3 \<noteq> buf w2
            else w3 = w2))) \<and>
   (wf_world w \<and> Bs1 \<noteq> [] \<and> (\<forall>B\<in>set Bs1. silence_threshold w < ncs_of B) \<and>
    (\<forall>B\<in>set Bs2. ncs_of B < silence_threshold w) \<and>
    length Bs2 = unat (silence_length w) + 1 \<and> silence_length w \<le> G_MAXINT \<longrightarrow>
      (\<exists>w' d S. stream w (Bs1 @ Bs2) = Some w' \<and>
           pool_pushes (trace w') = pool_pushes (trace w) @ [d] \<and>
           deref w' d = Some S \<and> mem S \<noteq> [] \<and>
           quiet_bufs w' = 0 \<and> deref w' (buf w') = Some new_buffer))"
proof (intro conjI impI)
  assume "wf_world w \<and> incoming w b"
  then obtain A B where A: "deref w (buf w) = Some A" "refcount A = 1"
    and B: "deref w b = Some B" "0 < refcount B" "b \<noteq> buf w"
    by (auto simp: wf_world_iff incoming_iff)
  from flush_decision [OF A B(1) B(3) B(2)] B(1)
  show "\<exists>B w1 w2 w3 A2. deref w b = Some B \<and>
           chain_append w b (ncs_of B) = Some w1 \<and>
           chain_quiet w1 (ncs_of B) = Some w2 \<and> deref w2 (buf w2) = Some A2 \<and>
           chain_flush w2 = Some w3 \<and>
           gst_deepspeech_chain w b = Some (gst_pad_push w3 b) \<and>
           (if silence_length w2 < quiet_bufs w2 \<and> mem A2 \<noteq> []
            then trace w3 = trace w2 @ [PoolPush (length (heap w2))] \<and>
                 deref w3 (length (heap w2)) = Some A2 \<and>
                 quiet_bufs w3 = 0 \<and>
                 deref w3 (buf w3) = Some new_buffer \<and> buf w3 \<noteq> buf w2
            else w3 = w2)"
    by (intro exI [of _ B]) simp
next
  assume h: "wf_world w \<and> Bs1 \<noteq> [] \<and> (\<forall>B\<in>set Bs1. silence_threshold w < ncs_of B) \<and>
    (\<forall>B\<in>set Bs2. ncs_of B < silence_threshold w) \<and>
    length Bs2 = unat (silence_length w) + 1 \<and> silence_length w \<le> G_MAXINT"
  then have "wf_world w" "Bs1 \<noteq> []" "\<forall>B\<in>set Bs1. silence_threshold w < ncs_of B"
    "\<forall>B\<in>set Bs2. ncs_of B < silence_threshold w"
    "length Bs2 = unat (silence_length w) + 1" "silence_length w \<le> G_MAXINT"
    by simp_all
  then show "\<exists>w' d S. stream w (Bs1 @ Bs2) = Some w' \<and>
           pool_pushes (trace w') = pool_pushes (trace w) @ [d] \<and>
           deref w' d = Some S \<and> mem S \<noteq> [] \<and>
           quiet_bufs w' = 0 \<and> deref w' (buf w') = Some new_buffer"
    by (rule flush_after_quiet_run)
qed

lemma ex_world_simps:
  "silence_threshold (ex_world n) = 1 / 4"
  "silence_length (ex_world n) = n"
  "quiet_bufs (ex_world n) = 0"
  "trace (ex_world n) = []"
  "wf_world (ex_world n)"
  by (simp_all add: ex_world_def set_silence_length_def set_silence_threshold_def
      gst_deepspeech_init_def gst_buffer_new_def alloc_def wf_world_def deref_def)

theorem flush_rule_witness:
  "(\<exists>w3. gst_deepspeech_chain (ex_started ex_soft) 1 = Some (gst_pad_push w3 1)) \<and>
   (\<exists>w' d S. stream (ex_world 1) ([ex_loud] @ [ex_soft, ex_soft2]) = Some w' \<and>
        pool_pushes (trace w') = [d] \<and> deref w' d = Some S \<and> mem S \<noteq> [] \<and>
        quiet_bufs w' = 0 \<and> deref w' (buf w') = Some new_buffer)"
proof -
  have 1: "wf_world (ex_started ex_soft) \<and> incoming (ex_started ex_soft) 1"
    by (simp add: wf_world_def incoming_def deref_def ex_started_def ex_soft_def)
  have 2: "wf_world (ex_world 1) \<and> [ex_loud] \<noteq> [] \<and>
    (\<forall>B\<in>set [ex_loud]. silence_threshold (ex_world 1) < ncs_of B) \<and>
    (\<forall>B\<in>set [ex_soft, ex_soft2]. ncs_of B < silence_threshold (ex_world 1)) \<and>
    length [ex_soft, ex_soft2] = unat (silence_length (ex_world 1)) + 1 \<and>
    silence_length (ex_world 1) \<le> G_MAXINT"
    by (simp add: ex_world_simps ncs_of_examples G_MAXINT_def)
  note inst = flush_rule [of _ _ "[ex_loud]" "[ex_soft, ex_soft2]"]
  from inst [of "ex_started ex_soft" 1, THEN conjunct1, rule_format, OF 1]
  have first: "\<exists>w3. gst_deepspeech_chain (ex_started ex_soft) 1 = Some (gst_pad_push w3 1)"
    by blast
  from inst [of "ex_world 1" 1, THEN conjunct2, rule_format, OF 2]
  have second: "\<exists>w' d S. stream (ex_world 1) ([ex_loud] @ [ex_soft, ex_soft2]) = Some w' \<and>
        pool_pushes (trace w') = [d] \<and> deref w' d = Some S \<and> mem S \<noteq> [] \<and>
        quiet_bufs w' = 0 \<and> deref w' (buf w') = Some new_buffer"
    unfolding ex_world_simps by simp
  show ?thesis using first second by (rule conjI)
qed

text \<open>
  C2 as stated fails in two ways. With limit 0, one loud buffer followed by one buffer
  exactly at the threshold, which is not active, gives no flush; and so does one silent
  buffer after no loud buffer at all.
\<close>

theorem flush_rule_counterexample:
  "silence_threshold (ex_world 0) < ncs_of ex_loud \<and>
   \<not> silence_threshold (ex_world 0) < ncs_of ex_edge \<and>
   \<not> silence_threshold (ex_world 0) < ncs_of ex_soft \<and>
   length [ex_edge] = unat (silence_length (ex_world 0)) + 1 \<and>
   map_option (\<lambda>w. pool_pushes (trace w)) (stream (ex_world 0) ([ex_loud] @ [ex_edge])) = Some [] \<and>
   map_option (\<lambda>w. pool_pushes (trace w)) (stream (ex_world 0) ([] @ [ex_soft])) = Some []"
  by code_simp

section \<open>The timing of an event\<close>

lemma chain_keeps_accumulator_timing:
  assumes "deref w (buf w) = Some A" "refcount A = 1" "deref w b = Some B" "b \<noteq> buf w"
    "0 < refcount B"
    "pts A = GST_CLOCK_TIME_NONE" "duration A = GST_CLOCK_TIME_NONE"
  shows "\<exists>w' A'. gst_deepspeech_chain w b = Some w' \<and> deref w' (buf w') = Some A' \<and>
           pts A' = GST_CLOCK_TIME_NONE \<and> duration A' = GST_CLOCK_TIME_NONE \<and>
           (trace w' = trace w @ [PadPush b] \<or>
            (\<exists>d S. trace w' = trace w @ [PoolPush d, PadPush b] \<and> deref w' d = Some S \<and>
                   pts S = GST_CLOCK_TIME_NONE \<and> duration S = GST_CLOCK_TIME_NONE))"
proof -
  have 1: "gst_deepspeech_chain w b = Some (chain_result w b A B)"
    by (rule chain_spec [OF assms(1-5)])
  have 2: "deref (chain_result w b A B) (buf (chain_result w b A B)) =
           Some (if flushing w A B then new_buffer else A\<lparr>mem := seg_bytes w A B\<rparr>)"
    by (rule chain_result_acc [OF assms(1)])
  have 3: "pts (if flushing w A B then new_buffer else A\<lparr>mem := seg_bytes w A B\<rparr>)
             = GST_CLOCK_TIME_NONE"
    "duration (if flushing w A B then new_buffer else A\<lparr>mem := seg_bytes w A B\<rparr>)
             = GST_CLOCK_TIME_NONE"
    using assms(6,7) by (simp_all add: new_buffer_def)
  have 4: "trace (chain_result w b A B) = trace w @ [PadPush b] \<or>
            (\<exists>d S. trace (chain_result w b A B) = trace w @ [PoolPush d, PadPush b] \<and>
                   deref (chain_result w b A B) d = Some S \<and>
                   pts S = GST_CLOCK_TIME_NONE \<and> duration S = GST_CLOCK_TIME_NONE)"
  proof (cases "flushing w A B")
    case True
    then have "trace (chain_result w b A B)
                 = trace w @ [PoolPush (length (heap_appended w A B)), PadPush b]"
      and "deref (chain_result w b A B) (length (heap_appended w A B))
                 = Some (A\<lparr>mem := seg_bytes w A B\<rparr>)"
      by (simp_all add: chain_result_def deref_def nth_append)
    then show ?thesis using assms(6,7) by simp
  next
    case False
    then show ?thesis by (simp add: chain_result_def)
  qed
  show ?thesis using 1 2 3 4 by simp
qed

text \<open>
  C1. The spec's own round trip: threshold 0.25 and limit 1, a loud buffer at 0 ms, a
  silent one at 20 ms within the limit and a silent one at 40 ms that flushes, each
  20 ms long, and an engine that answers \<open>a\<close>. One event is posted. Its timestamp and
  its duration are \<^verbatim>\<open>GST_CLOCK_TIME_NONE\<close>, the values \<^verbatim>\<open>gst_buffer_new\<close> gave the accumulator,
  and not the timestamp 0 and the duration of 20 ms of the first buffer of the segment:
  \<^verbatim>\<open>gst_buffer_append\<close> moves bytes only, and nothing records the metadata of the first
  buffer.
\<close>

theorem event_timing_round_trip:
  "map_option (\<lambda>w. messages (trace w))
     (stream (ex_world 1) [ex_loud, ex_soft, ex_soft2] \<bind> drain_pool ex_model ex_segment)
     = Some [\<lparr>timestamp = GST_CLOCK_TIME_NONE, stream_time = GST_CLOCK_TIME_NONE,
              running_time = GST_CLOCK_TIME_NONE, msg_duration = GST_CLOCK_TIME_NONE,
              msg_text = ''a''\<rparr>] \<and>
   pts ex_loud = 0 \<and> duration ex_loud = 20000000 \<and>
   GST_CLOCK_TIME_NONE = 18446744073709551615 \<and>
   map_option (\<lambda>w. map (\<lambda>d. map_option mem (deref w d)) (pool_pushes (trace w)))
     (stream (ex_world 1) [ex_loud, ex_soft, ex_soft2])
     = Some [Some (mem ex_loud @ mem ex_soft @ mem ex_soft2)]"
  by code_simp

end
